theory Spec2Isabelle
  imports Complex_Main "HOL-Library.Finite_Map"
begin

section \<open>Data model\<close>

text \<open>
  Python strings are HOL strings. A path is kept as the string the code was given or
  wrote, and becomes a \<open>ppath\<close> where the code builds a \<open>pathlib.Path\<close> from it.
  Python floats holding a confidence are exact rationals.
\<close>

datatype source = crossref | semantic_scholar | open_library | google_books | zotero
  | manual_review

text \<open>
  The metadata dictionary. \<open>doi\<close> is an option because \<open>resolve_metadata\<close> copies
  \<open>info["doi"]\<close>, which may be Python's \<open>None\<close>, into it; \<open>isbn\<close> and
  \<open>zotero_key\<close> are keys that only some providers set.
\<close>

record metadata =
  title :: string
  authors :: "string list"
  year :: string
  journal :: string
  publisher :: string
  doi :: "string option"
  source :: source
  confidence :: rat
  isbn :: "string option"
  zotero_key :: "string option"

text \<open>One journal entry, as \<open>log_rename\<close> writes it.\<close>

record journal_entry =
  original_path :: string
  new_path :: string
  timestamp :: nat
  metadata_source :: string
  session_id :: string
  entry_metadata :: "metadata option"
  undone :: bool

text \<open>
  An exception that nothing catches leaves the function: \<open>Raised\<close>. \<open>DocumentError\<close>
  is what the document reader raises on a document it opened and cannot read,
  \<open>OSError\<close> what \<open>shutil.move\<close> raises.
\<close>

datatype exn = DocumentError | OSError

datatype 'a raised_or = Raised exn | Returned 'a

text \<open>
  The world the rename and undo functions act on: the file system (every path that
  exists, with what is stored there), what the operating system lets move
  (\<open>can_move src dst\<close>: the directory of \<open>dst\<close> is there and can be written, \<open>src\<close> can be
  taken away), the persisted journal (the contents of \<open>rename_log.json\<close>), and the
  clock.
\<close>

type_synonym 'f filesystem = "(string, 'f) fmap"

record 'f world =
  files :: "'f filesystem"
  can_move :: "string \<Rightarrow> string \<Rightarrow> bool"
  journal :: "journal_entry list"
  clock :: nat

definition path_exists :: "'f filesystem \<Rightarrow> string \<Rightarrow> bool" where
  "path_exists fs p = (fmlookup fs p \<noteq> None)"

text \<open>
  \<open>shutil.move(src, dst)\<close> between file paths: \<open>os.rename\<close>. It raises (the value
  \<open>None\<close>) when the source is missing or the operating system refuses the move, and
  the files are then as they were; otherwise it replaces what is at the destination,
  and does nothing when both paths are the same.
\<close>

definition shutil_move :: "'f world \<Rightarrow> string \<Rightarrow> string \<Rightarrow> 'f filesystem option" where
  "shutil_move w src dst =
     (case fmlookup (files w) src of
        None \<Rightarrow> None
      | Some f \<Rightarrow>
          if can_move w src dst then Some (fmupd dst f (fmdrop src (files w))) else None)"

section \<open>Text\<close>

text \<open>
  Characters are the code points below 256. \<open>is_space\<close> is \<open>str.isspace\<close> (and the class
  \<open>\s\<close>) there, \<open>is_digit\<close> the class \<open>\d\<close>, and \<open>lower_char\<close> is \<open>str.lower\<close>: the
  capitals A-Z and those of Latin-1 move up by 32, which sets bit 5.
\<close>

definition is_space :: "char \<Rightarrow> bool" where
  "is_space c = (of_char c \<in> {9, 10, 11, 12, 13, 28, 29, 30, 31, 32, 133, 160 :: nat})"

definition is_digit :: "char \<Rightarrow> bool" where
  "is_digit c = (c \<in> set ''0123456789'')"

definition lower_char :: "char \<Rightarrow> char" where
  "lower_char c =
     (let n = of_char c :: nat in
      if (65 \<le> n \<and> n \<le> 90) \<or> (192 \<le> n \<and> n \<le> 222 \<and> n \<noteq> 215)
      then (case c of Char b0 b1 b2 b3 b4 b5 b6 b7 \<Rightarrow> Char b0 b1 b2 b3 b4 True b6 b7)
      else c)"

definition lower :: "string \<Rightarrow> string" where
  "lower s = map lower_char s"

text \<open>\<open>s.strip()\<close>, \<open>s.rstrip(chars)\<close> and \<open>s.strip(chars)\<close>.\<close>

definition py_strip :: "string \<Rightarrow> string" where
  "py_strip s = rev (dropWhile is_space (rev (dropWhile is_space s)))"

definition rstrip_chars :: "char list \<Rightarrow> string \<Rightarrow> string" where
  "rstrip_chars cs s = rev (dropWhile (\<lambda>c. c \<in> set cs) (rev s))"

definition strip_chars :: "char list \<Rightarrow> string \<Rightarrow> string" where
  "strip_chars cs s = rstrip_chars cs (dropWhile (\<lambda>c. c \<in> set cs) s)"

text \<open>
  \<open>s.split(sep)\<close> for a one-character separator (\<open>split_where\<close> cuts at every
  separator and keeps empty pieces), and \<open>s.split()\<close>, which cuts at runs of white
  space and keeps no empty piece.
\<close>

fun split_where :: "(char \<Rightarrow> bool) \<Rightarrow> string \<Rightarrow> string list" where
  "split_where P [] = [[]]"
| "split_where P (c # cs) =
     (if P c then [] # split_where P cs
      else (case split_where P cs of
              w # ws \<Rightarrow> (c # w) # ws
            | [] \<Rightarrow> [[c]]))"

definition split_on :: "char \<Rightarrow> string \<Rightarrow> string list" where
  "split_on sep s = split_where (\<lambda>c. c = sep) s"

definition py_split :: "string \<Rightarrow> string list" where
  "py_split s = filter (\<lambda>w. w \<noteq> []) (split_where is_space s)"

fun join :: "string \<Rightarrow> string list \<Rightarrow> string" where
  "join sep [] = []"
| "join sep [x] = x"
| "join sep (x # y # ys) = x @ sep @ join sep (y # ys)"

text \<open>Python's truth value of an optional string: \<open>None\<close> and \<open>""\<close> are false.\<close>

fun truthy :: "string option \<Rightarrow> bool" where
  "truthy None = False"
| "truthy (Some s) = (s \<noteq> [])"

subsection \<open>Regular expressions\<close>

text \<open>
  The fragment of \<open>re\<close> that the two patterns use. \<open>matches r s\<close> lists, in the order
  in which the backtracking matcher tries them, the rests of \<open>s\<close> after each way of
  matching \<open>r\<close> at the start of \<open>s\<close>: an optional part and a repetition are greedy.
  \<open>Many lo hi p\<close> is the class \<open>p\<close> repeated \<open>{lo,hi}\<close> times (\<open>hi = None\<close>: no
  bound), \<open>Times n r\<close> is \<open>r{n}\<close>.
\<close>

datatype rx =
    Eps
  | Class "char \<Rightarrow> bool"
  | Seq rx rx
  | Opt rx
  | Times nat rx
  | Many nat "nat option" "char \<Rightarrow> bool"

primrec iter :: "nat \<Rightarrow> (string \<Rightarrow> string list) \<Rightarrow> string \<Rightarrow> string list" where
  "iter 0 m s = [s]"
| "iter (Suc n) m s = concat (map (iter n m) (m s))"

primrec matches :: "rx \<Rightarrow> string \<Rightarrow> string list" where
  "matches Eps = (\<lambda>s. [s])"
| "matches (Class p) = (\<lambda>s. case s of [] \<Rightarrow> [] | c # cs \<Rightarrow> if p c then [cs] else [])"
| "matches (Seq a b) = (\<lambda>s. concat (map (matches b) (matches a s)))"
| "matches (Opt a) = (\<lambda>s. matches a s @ [s])"
| "matches (Times n a) = (\<lambda>s. iter n (matches a) s)"
| "matches (Many lo hi p) =
     (\<lambda>s. let n = length (takeWhile p s);
              top = (case hi of None \<Rightarrow> n | Some h \<Rightarrow> min n h)
          in map (\<lambda>k. drop k s) (rev [lo..<Suc top]))"

text \<open>
  \<open>first_group label grp s\<close>: the text of the group in the first match of
  \<open>label\<close> followed by \<open>(grp)\<close> at the start of \<open>s\<close>. \<open>search_group\<close> is
  \<open>pattern.search(s)\<close> followed by \<open>m.group(1)\<close>: the match at the leftmost position
  that has one.
\<close>

definition first_group :: "rx \<Rightarrow> rx \<Rightarrow> string \<Rightarrow> string option" where
  "first_group label grp s =
     (case concat (map (\<lambda>s1. map (\<lambda>s2. take (length s1 - length s2) s1) (matches grp s1))
                        (matches label s)) of
        [] \<Rightarrow> None
      | g # gs \<Rightarrow> Some g)"

fun search_group :: "rx \<Rightarrow> rx \<Rightarrow> string \<Rightarrow> string option" where
  "search_group label grp [] = first_group label grp []"
| "search_group label grp (c # cs) =
     (case first_group label grp (c # cs) of
        Some g \<Rightarrow> Some g
      | None \<Rightarrow> search_group label grp cs)"

text \<open>
  The words of a pattern, for reasoning about what a match consumed: \<open>lang r\<close> holds
  every string that \<open>r\<close> can match.
\<close>

primrec lang_pow :: "nat \<Rightarrow> string set \<Rightarrow> string set" where
  "lang_pow 0 L = {[]}"
| "lang_pow (Suc n) L = {u @ v | u v. u \<in> L \<and> v \<in> lang_pow n L}"

primrec lang :: "rx \<Rightarrow> string set" where
  "lang Eps = {[]}"
| "lang (Class p) = {[c] | c. p c}"
| "lang (Seq a b) = {u @ v | u v. u \<in> lang a \<and> v \<in> lang b}"
| "lang (Opt a) = insert [] (lang a)"
| "lang (Times n a) = lang_pow n (lang a)"
| "lang (Many lo hi p) =
     {u. list_all p u \<and> lo \<le> length u \<and> (case hi of None \<Rightarrow> True | Some h \<Rightarrow> length u \<le> h)}"

primrec lit :: "string \<Rightarrow> rx" where
  "lit [] = Eps"
| "lit (x # xs) = Seq (Class (\<lambda>c. c = x)) (lit xs)"

text \<open>A literal under \<open>re.IGNORECASE\<close>.\<close>

primrec lit_i :: "string \<Rightarrow> rx" where
  "lit_i [] = Eps"
| "lit_i (x # xs) = Seq (Class (\<lambda>c. lower_char c = lower_char x)) (lit_i xs)"

text \<open>
  \<open>DOI_PATTERN\<close>: \<^verbatim>\<open>(10\.\d{4,9}/[^\s,;"'\]}>]+)\<close>. The whole pattern is its group.
\<close>

definition doi_tail_char :: "char \<Rightarrow> bool" where
  "doi_tail_char c =
     (\<not> is_space c \<and>
      c \<notin> {CHR '','', CHR '';'', CHR 0x22, CHR 0x27, CHR '']'', CHR ''}'', CHR ''>''})"

definition DOI_PATTERN :: rx where
  "DOI_PATTERN =
     Seq (lit ''10.'') (Seq (Many 4 (Some 9) is_digit)
       (Seq (lit ''/'') (Many 1 None doi_tail_char)))"

text \<open>
  \<open>ISBN_PATTERN\<close>: \<^verbatim>\<open>(?:ISBN[-:]?\s*)((?:97[89][-\s]?)?(?:\d[-\s]?){9}[\dXx])\<close> with
  \<open>re.IGNORECASE\<close>: the label, which carries no \<open>?\<close>, and the group.
\<close>

definition dash_or_space :: "char \<Rightarrow> bool" where
  "dash_or_space c = (c = CHR ''-'' \<or> is_space c)"

definition ISBN_LABEL :: rx where
  "ISBN_LABEL =
     Seq (lit_i ''ISBN'')
       (Seq (Opt (Class (\<lambda>c. c = CHR ''-'' \<or> c = CHR '':''))) (Many 0 None is_space))"

definition ISBN_GROUP :: rx where
  "ISBN_GROUP =
     Seq (Opt (Seq (lit ''97'')
            (Seq (Class (\<lambda>c. c = CHR ''8'' \<or> c = CHR ''9'')) (Opt (Class dash_or_space)))))
       (Seq (Times 9 (Seq (Class is_digit) (Opt (Class dash_or_space))))
          (Class (\<lambda>c. is_digit c \<or> lower_char c = CHR ''x'')))"

section \<open>Paths\<close>

text \<open>\<open>os.path.basename(p)\<close>: what follows the last \<open>/\<close>.\<close>

definition path_name :: "string \<Rightarrow> string" where
  "path_name p = rev (takeWhile (\<lambda>c. c \<noteq> CHR ''/'') (rev p))"

text \<open>
  A \<open>pathlib.Path\<close> of POSIX: its root (\<open>/\<close>, or \<open>//\<close> for exactly two leading
  slashes, or none) and its components. \<open>Path(s)\<close> drops the empty components and the
  components \<open>.\<close>, so a doubled or a closing slash leaves no trace.
\<close>

record ppath =
  p_root :: string
  p_parts :: "string list"

definition path_root :: "string \<Rightarrow> string" where
  "path_root s =
     (let n = length (takeWhile (\<lambda>c. c = CHR ''/'') s) in
      if n = 0 then [] else if n = 2 then ''//'' else ''/'')"

definition parse_path :: "string \<Rightarrow> ppath" where
  "parse_path s =
     \<lparr>p_root = path_root s,
      p_parts = filter (\<lambda>x. x \<noteq> [] \<and> x \<noteq> ''.'') (split_on CHR ''/'' s)\<rparr>"

text \<open>\<open>str(path)\<close>: the root and the components joined by \<open>/\<close>; the empty path is \<open>.\<close>.\<close>

definition pp_str :: "ppath \<Rightarrow> string" where
  "pp_str p =
     (if p_root p = [] \<and> p_parts p = [] then ''.''
      else p_root p @ join ''/'' (p_parts p))"







text \<open>\<open>str(n)\<close> for a natural number: its decimal digits.\<close>

definition digit_char :: "nat \<Rightarrow> char" where
  "digit_char d = ''0123456789'' ! d"

function str_nat :: "nat \<Rightarrow> string" where
  "str_nat n = (if n < 10 then [digit_char n] else str_nat (n div 10) @ [digit_char (n mod 10)])"
  by pat_completeness auto
termination
  by (relation "measure (\<lambda>n. n)") auto

declare str_nat.simps [simp del]


section \<open>Rename log\<close>

definition load_log :: "'f world \<Rightarrow> journal_entry list" where
  "load_log w = journal w"

definition save_log :: "journal_entry list \<Rightarrow> 'f world \<Rightarrow> 'f world" where
  "save_log entries w = w\<lparr>journal := entries\<rparr>"

definition log_rename ::
  "string \<Rightarrow> string \<Rightarrow> string \<Rightarrow> string \<Rightarrow> metadata option \<Rightarrow> 'f world \<Rightarrow> 'f world" where
  "log_rename original new_p msource sid md w =
     (let entries = load_log w;
          entries = entries @
            [\<lparr>original_path = original, new_path = new_p, timestamp = clock w,
              metadata_source = msource, session_id = sid, entry_metadata = md,
              undone = False\<rparr>]
      in save_log entries (w\<lparr>clock := Suc (clock w)\<rparr>))"

text \<open>
  The outcomes that \<open>undo_single\<close> returns. The source returns the dictionaries
  \<open>{"error": "Invalid index"}\<close>, \<open>{"error": "Already undone"}\<close>,
  \<open>{"error": "File not found: <new_path>"}\<close>,
  \<open>{"error": "Original path already occupied: <original_path>"}\<close> and
  \<open>{"success": True, "restored": <original_path>}\<close>. The two paths of the entry are
  read through \<open>Path(...)\<close>, and tested, moved and reported as the strings of these
  paths. The call of \<open>shutil.move\<close> stands in no \<open>try\<close>: when it raises,
  \<open>undo_single\<close> raises, before the journal is saved.
\<close>

datatype undo_error = InvalidIndex | AlreadyUndone | TargetMissing string
  | SourceOccupied string

type_synonym undo_result = "undo_error + string"

definition undo_single :: "int \<Rightarrow> 'f world \<Rightarrow> undo_result raised_or \<times> 'f world" where
  "undo_single index w =
     (let entries = load_log w in
      if index < 0 \<or> index \<ge> int (length entries) then (Returned (Inl InvalidIndex), w)
      else
        let entry = entries ! nat index in
        if undone entry then (Returned (Inl AlreadyUndone), w)
        else
          let new_p = parse_path (new_path entry);
              orig_p = parse_path (original_path entry) in
          if \<not> path_exists (files w) (pp_str new_p)
            then (Returned (Inl (TargetMissing (pp_str new_p))), w)
          else if path_exists (files w) (pp_str orig_p)
            then (Returned (Inl (SourceOccupied (pp_str orig_p))), w)
          else
            (case shutil_move w (pp_str new_p) (pp_str orig_p) of
               None \<Rightarrow> (Raised OSError, w)
             | Some fs' \<Rightarrow>
                 (Returned (Inr (pp_str orig_p)),
                  save_log (entries[nat index := entry\<lparr>undone := True\<rparr>])
                    (w\<lparr>files := fs'\<rparr>))))"

text \<open>
  \<open>undo_session\<close> iterates over \<open>enumerate(entries)\<close> of the journal read at the
  start: rebinding \<open>entries\<close> inside the loop does not change what the loop visits, so
  the test of each entry reads the first snapshot, while \<open>undo_single\<close> reads the
  journal as it is then. The loop has no \<open>try\<close> either: an exception leaving
  \<open>undo_single\<close> leaves \<open>undo_session\<close>, and no list of results is returned.
\<close>

fun undo_session_loop ::
  "string \<Rightarrow> (nat \<times> journal_entry) list \<Rightarrow> undo_result list \<Rightarrow> 'f world
    \<Rightarrow> undo_result list raised_or \<times> 'f world" where
  "undo_session_loop sid [] results w = (Returned results, w)"
| "undo_session_loop sid ((i, entry) # rest) results w =
     (if session_id entry = sid \<and> \<not> undone entry then
        (case undo_single (int i) w of
           (Raised x, w') \<Rightarrow> (Raised x, w')
         | (Returned r, w') \<Rightarrow> undo_session_loop sid rest (results @ [r]) w')
      else undo_session_loop sid rest results w)"

definition undo_session ::
  "string \<Rightarrow> 'f world \<Rightarrow> undo_result list raised_or \<times> 'f world" where
  "undo_session sid w = undo_session_loop sid (enumerate 0 (load_log w)) [] w"

section \<open>PDF metadata extraction\<close>

text \<open>
  A document: its metadata dictionary (a value \<open>None\<close> is the empty string) and the
  text of each page. What the document reader does with a path: \<open>fitz.open\<close> raises
  (\<open>OpenRaised\<close>), or the document opens and reading its metadata or its pages raises
  (\<open>ReadRaised\<close>, as for an encrypted document), or the document is read.
\<close>

record pdf_doc =
  doc_metadata :: "(string \<times> string) list"
  doc_pages :: "string list"

datatype read_outcome = OpenRaised | ReadRaised | Document pdf_doc

record pdf_info =
  info_doi :: "string option"
  info_isbn :: "string option"
  info_title_guess :: "string option"
  info_text_snippet :: string
  info_pdf_metadata :: "(string \<times> string) list"

definition clean_doi :: "string \<Rightarrow> string" where
  "clean_doi d =
     rstrip_chars [CHR ''.'', CHR '','', CHR '';'', CHR '':'', CHR 0x22, CHR 0x27, CHR ''>'',
                   CHR '')'', CHR ''}'', CHR '']''] d"

definition search_doi :: "string \<Rightarrow> string option" where
  "search_doi s = map_option clean_doi (search_group Eps DOI_PATTERN s)"

text \<open>The loop over the metadata fields, which stops at the first field with a match.\<close>

fun doi_from_fields :: "(string \<times> string) list \<Rightarrow> string list \<Rightarrow> string option" where
  "doi_from_fields meta [] = None"
| "doi_from_fields meta (field # rest) =
     (let val = (case map_of meta field of Some v \<Rightarrow> v | None \<Rightarrow> []) in
      if val \<noteq> [] then
        (case search_doi val of
           Some d \<Rightarrow> Some d
         | None \<Rightarrow> doi_from_fields meta rest)
      else doi_from_fields meta rest)"

text \<open>The ISBN extraction: one search of the text, then \<open>re.sub(r'[-\s]', '', m.group(1))\<close>.\<close>

definition find_isbn :: "string \<Rightarrow> string option" where
  "find_isbn full_text =
     (case search_group ISBN_LABEL ISBN_GROUP full_text of
        None \<Rightarrow> None
      | Some g \<Rightarrow> Some (filter (\<lambda>c. \<not> dash_or_space c) g))"

definition guess_title :: "string \<Rightarrow> string option" where
  "guess_title full_text =
     (if py_strip full_text \<noteq> [] then
        (let lines = map py_strip (filter (\<lambda>l. py_strip l \<noteq> []) (split_on CHR 0x0A full_text)) in
         case find (\<lambda>line. length line > 10 \<and> search_doi line = None
                            \<and> take 4 line \<noteq> ''http'') (take 10 lines) of
           None \<Rightarrow> None
         | Some line \<Rightarrow> Some (take 200 line))
      else None)"

text \<open>
  \<open>extract_pdf_info\<close>. Only \<open>fitz.open\<close> stands in a \<open>try\<close>, which returns the empty
  result; an exception raised while the metadata and the pages are read leaves the
  function.
\<close>

definition extract_pdf_info :: "(string \<Rightarrow> read_outcome) \<Rightarrow> string \<Rightarrow> pdf_info raised_or" where
  "extract_pdf_info reader pdf_path =
     (case reader pdf_path of
        OpenRaised \<Rightarrow>
          Returned \<lparr>info_doi = None, info_isbn = None, info_title_guess = None,
                    info_text_snippet = [], info_pdf_metadata = []\<rparr>
      | ReadRaised \<Rightarrow> Raised DocumentError
      | Document doc \<Rightarrow>
          let meta = doc_metadata doc;
              full_text = join [CHR 0x0A] (take 2 (doc_pages doc));
              doi1 = doi_from_fields meta [''subject'', ''keywords'', ''doi''];
              doi2 = (if \<not> truthy doi1 then
                        (case search_doi full_text of Some d \<Rightarrow> Some d | None \<Rightarrow> doi1)
                      else doi1);
              doi3 = (if \<not> truthy doi2 then
                        (case search_doi (path_name pdf_path) of Some d \<Rightarrow> Some d
                         | None \<Rightarrow> doi2)
                      else doi2)
          in Returned \<lparr>info_doi = doi3, info_isbn = find_isbn full_text,
              info_title_guess = guess_title full_text,
              info_text_snippet = take 3000 full_text,
              info_pdf_metadata = filter (\<lambda>(k, v). v \<noteq> []) meta\<rparr>)"

section \<open>Settings\<close>

record settings =
  zotero_api_key :: string
  zotero_library_id :: string
  zotero_library_type :: string
  template :: string
  custom_template :: string

section \<open>Provider clients\<close>

text \<open>
  What a request yields: \<open>Failed\<close> is an exception anywhere in the client's \<open>try\<close>
  block (no connection, a timeout, a body that is not the expected JSON);
  \<open>Response status body\<close> is an answer with its status code and its decoded body.
\<close>

datatype 'a http = Failed | Response nat 'a

text \<open>
  The JSON bodies, one record for each provider, holding the keys that the clients read.
  A key that is absent has the default its \<open>.get\<close> names: the empty string, the empty
  list, and \<open>[[]]\<close> for \<open>date-parts\<close>.
\<close>

record crossref_item =
  ci_author :: "(string \<times> string) list"
  ci_title :: "string list"
  ci_published_print :: "int list list"
  ci_published_online :: "int list list"
  ci_created :: "int list list"
  ci_short_container_title :: "string list"
  ci_container_title :: "string list"
  ci_publisher :: string
  ci_DOI :: string

datatype json_year = YearAbsent | YearNull | YearInt int

record s2_paper =
  s2_title :: string
  s2_authors :: "string list"
  s2_year :: json_year
  s2_venue :: string
  s2_DOI :: string

record ol_book =
  ol_title :: string
  ol_authors :: "string list"
  ol_publish_date :: string
  ol_publishers :: "string list"

record gb_volume =
  gb_title :: string
  gb_authors :: "string list"
  gb_publishedDate :: string
  gb_publisher :: string

record zotero_item =
  z_key :: string
  z_title :: string
  z_creators :: "(string \<times> string) list"
  z_date :: string
  z_publicationTitle :: string
  z_journalAbbreviation :: string
  z_publisher :: string
  z_DOI :: string

text \<open>
  The network: for each request of a client, what it yields. The Zotero request takes
  the library type, the library id and the API key with the title.
\<close>

record network =
  crossref_works :: "string \<Rightarrow> crossref_item http"
  crossref_query :: "string \<Rightarrow> crossref_item list http"
  semantic_scholar_papers :: "string \<Rightarrow> s2_paper list http"
  open_library_books :: "string \<Rightarrow> ol_book option http"
  google_books_volumes :: "string \<Rightarrow> gb_volume list http"
  zotero_items :: "string \<Rightarrow> string \<Rightarrow> string \<Rightarrow> string \<Rightarrow> zotero_item list http"

definition str_int :: "int \<Rightarrow> string" where
  "str_int i = (if i < 0 then CHR ''-'' # str_nat (nat (- i)) else str_nat (nat i))"

text \<open>\<open>xs[0] if xs else ""\<close>.\<close>

fun first_or_empty :: "string list \<Rightarrow> string" where
  "first_or_empty [] = []"
| "first_or_empty (x # xs) = x"

text \<open>\<open>not date_parts or not date_parts[0]\<close>.\<close>

fun no_date :: "int list list \<Rightarrow> bool" where
  "no_date [] = True"
| "no_date (d # ds) = (d = [])"

definition parse_crossref_item :: "crossref_item \<Rightarrow> metadata" where
  "parse_crossref_item item =
     (let authors = map (\<lambda>(family, given). strip_chars '', '' (family @ '', '' @ given))
                      (filter (\<lambda>(family, given). family \<noteq> []) (ci_author item));
          date_parts = ci_published_print item;
          date_parts = (if no_date date_parts then ci_published_online item else date_parts);
          date_parts = (if no_date date_parts then ci_created item else date_parts);
          year = (if no_date date_parts then [] else str_int (hd (hd date_parts)));
          journal_list = (if ci_short_container_title item = [] then ci_container_title item
                          else ci_short_container_title item)
      in \<lparr>title = first_or_empty (ci_title item), authors = authors, year = year,
          journal = first_or_empty journal_list, publisher = ci_publisher item,
          doi = Some (ci_DOI item), source = crossref, confidence = 1,
          isbn = None, zotero_key = None\<rparr>)"

definition crossref_lookup_doi :: "network \<Rightarrow> string \<Rightarrow> metadata option" where
  "crossref_lookup_doi net d =
     (case crossref_works net d of
        Failed \<Rightarrow> None
      | Response status item \<Rightarrow>
          if status \<noteq> 200 then None else Some (parse_crossref_item item))"

text \<open>
  \<open>round(x, 2)\<close>, with the float taken as the exact quotient: the nearest hundredth,
  a tie going to the even one. Python rounds the binary float nearest to the quotient,
  which at a quotient lying exactly between two hundredths (1/40, 99/200) is a little
  off the tie, so that Python may return the other of the two neighbours there; away
  from such ties both agree. Nothing proved below depends on which neighbour a tie
  takes.
\<close>

definition py_round2 :: "rat \<Rightarrow> rat" where
  "py_round2 x =
     (let y = x * 100; f = \<lfloor>y\<rfloor>; d = y - of_int f in
      of_int (if d < 1 / 2 then f else if 1 / 2 < d then f + 1
              else if even f then f else f + 1) / 100)"

definition crossref_search_title :: "network \<Rightarrow> string \<Rightarrow> metadata option" where
  "crossref_search_title net t =
     (case crossref_query net t of
        Failed \<Rightarrow> None
      | Response status items \<Rightarrow>
          if status \<noteq> 200 then None
          else (case items of
                  [] \<Rightarrow> None
                | best # others \<Rightarrow>
                    let result = parse_crossref_item best;
                        result_title = lower (title result);
                        query_title = lower t
                    in
                    if result_title \<noteq> [] \<and> query_title \<noteq> [] then
                      (let words_q = remdups (py_split query_title);
                           words_r = remdups (py_split result_title)
                       in
                       if words_q \<noteq> [] then
                         Some (result\<lparr>confidence :=
                           py_round2 (of_nat (length (filter (\<lambda>w. w \<in> set words_r) words_q))
                                      / of_nat (length words_q))\<rparr>)
                       else Some result)
                    else Some result))"

fun str_year :: "json_year \<Rightarrow> string" where
  "str_year YearAbsent = []"
| "str_year YearNull = ''None''"
| "str_year (YearInt i) = str_int i"

definition semantic_scholar_search :: "network \<Rightarrow> string \<Rightarrow> metadata option" where
  "semantic_scholar_search net t =
     (case semantic_scholar_papers net t of
        Failed \<Rightarrow> None
      | Response status papers \<Rightarrow>
          if status \<noteq> 200 then None
          else (case papers of
                  [] \<Rightarrow> None
                | paper # others \<Rightarrow>
                    Some \<lparr>title = s2_title paper, authors = s2_authors paper,
                          year = str_year (s2_year paper), journal = s2_venue paper,
                          publisher = [], doi = Some (s2_DOI paper),
                          source = semantic_scholar, confidence = 7 / 10,
                          isbn = None, zotero_key = None\<rparr>))"

definition open_library_isbn :: "network \<Rightarrow> string \<Rightarrow> metadata option" where
  "open_library_isbn net i =
     (case open_library_books net i of
        Failed \<Rightarrow> None
      | Response status entry \<Rightarrow>
          if status \<noteq> 200 then None
          else (case entry of
                  None \<Rightarrow> None
                | Some book \<Rightarrow>
                    Some \<lparr>title = ol_title book, authors = ol_authors book,
                          year = (if ol_publish_date book \<noteq> []
                                  then drop (length (ol_publish_date book) - 4)
                                         (ol_publish_date book)
                                  else []),
                          journal = [], publisher = first_or_empty (ol_publishers book),
                          doi = Some [], source = open_library, confidence = 9 / 10,
                          isbn = Some i, zotero_key = None\<rparr>))"

definition google_books_isbn :: "network \<Rightarrow> string \<Rightarrow> metadata option" where
  "google_books_isbn net i =
     (case google_books_volumes net i of
        Failed \<Rightarrow> None
      | Response status items \<Rightarrow>
          if status \<noteq> 200 then None
          else (case items of
                  [] \<Rightarrow> None
                | vol # others \<Rightarrow>
                    Some \<lparr>title = gb_title vol, authors = gb_authors vol,
                          year = take 4 (gb_publishedDate vol), journal = [],
                          publisher = gb_publisher vol, doi = Some [],
                          source = google_books, confidence = 17 / 20,
                          isbn = Some i, zotero_key = None\<rparr>))"

definition isbn_lookup :: "network \<Rightarrow> string \<Rightarrow> metadata option" where
  "isbn_lookup net i =
     (case open_library_isbn net i of
        Some result \<Rightarrow> Some result
      | None \<Rightarrow> google_books_isbn net i)"

definition zotero_search :: "network \<Rightarrow> settings \<Rightarrow> string \<Rightarrow> metadata option" where
  "zotero_search net s t =
     (if zotero_api_key s = [] \<or> zotero_library_id s = [] then None
      else
        (case zotero_items net (zotero_library_type s) (zotero_library_id s)
                (zotero_api_key s) t of
           Failed \<Rightarrow> None
         | Response status items \<Rightarrow>
             if status \<noteq> 200 then None
             else (case items of
                     [] \<Rightarrow> None
                   | item # others \<Rightarrow>
                       Some \<lparr>title = z_title item,
                             authors = filter (\<lambda>name. name \<noteq> [])
                               (map (\<lambda>(last_name, first_name).
                                       if first_name \<noteq> [] then last_name @ '', '' @ first_name
                                       else last_name)
                                    (z_creators item)),
                             year = take 4 (z_date item),
                             journal = (if z_publicationTitle item \<noteq> []
                                        then z_publicationTitle item
                                        else z_journalAbbreviation item),
                             publisher = z_publisher item, doi = Some (z_DOI item),
                             source = zotero, confidence = 19 / 20,
                             isbn = None, zotero_key = Some (z_key item)\<rparr>)))"

section \<open>Metadata resolution pipeline\<close>

text \<open>
  \<open>os.path.splitext\<close> of POSIX (the root, element 0): the path is cut at its last dot
  when that dot lies after the last \<open>/\<close> and some character of the file name before it
  is not a dot. \<open>rfind\<close> is \<open>str.rfind\<close> of one character, -1 when it is not there.
\<close>

definition rfind :: "char \<Rightarrow> string \<Rightarrow> int" where
  "rfind ch s =
     (if ch \<in> set s
      then int (length s) - 1 - int (length (takeWhile (\<lambda>c. c \<noteq> ch) (rev s)))
      else - 1)"

definition splitext_root :: "string \<Rightarrow> string" where
  "splitext_root p =
     (let sepIndex = rfind CHR ''/'' p; dotIndex = rfind CHR ''.'' p in
      if dotIndex > sepIndex
         \<and> list_ex (\<lambda>c. c \<noteq> CHR ''.'') (drop (nat (sepIndex + 1)) (take (nat dotIndex) p))
      then take (nat dotIndex) p
      else p)"

text \<open>\<open>if x: metadata = lookup(x)\<close>, the metadata staying \<open>None\<close> otherwise.\<close>

fun when_truthy :: "string option \<Rightarrow> (string \<Rightarrow> metadata option) \<Rightarrow> metadata option" where
  "when_truthy None lookup = None"
| "when_truthy (Some x) lookup = (if x \<noteq> [] then lookup x else None)"

text \<open>Step 6 of \<open>resolve_metadata\<close>: the record for manual review.\<close>

definition manual_review_record :: "pdf_info \<Rightarrow> string \<Rightarrow> metadata" where
  "manual_review_record info pdf_path =
     \<lparr>title = (if truthy (info_title_guess info) then the (info_title_guess info)
               else splitext_root (path_name pdf_path)),
      authors = [], year = [], journal = [], publisher = [],
      doi = info_doi info, source = manual_review, confidence = 0,
      isbn = None, zotero_key = None\<rparr>"

text \<open>
  \<open>resolve_metadata\<close> after its first line, for the information extracted from the
  document; \<open>st\<close> is what \<open>load_settings()\<close> returns.
\<close>

definition resolve_metadata_from ::
  "network \<Rightarrow> settings \<Rightarrow> pdf_info \<Rightarrow> string \<Rightarrow> metadata" where
  "resolve_metadata_from net st info pdf_path =
     (case when_truthy (info_doi info) (crossref_lookup_doi net) of
        Some m \<Rightarrow> m\<lparr>confidence := 1\<rparr>
      | None \<Rightarrow>
     (case when_truthy (info_isbn info) (isbn_lookup net) of
        Some m \<Rightarrow> m
      | None \<Rightarrow>
     (let t = info_title_guess info;
          searched = when_truthy t (crossref_search_title net)
      in
      if (case searched of Some m \<Rightarrow> confidence m \<ge> 1 / 2 | None \<Rightarrow> False)
      then the searched
      else
     (case when_truthy t (semantic_scholar_search net) of
        Some m \<Rightarrow> m
      | None \<Rightarrow>
     (case when_truthy t (zotero_search net st) of
        Some m \<Rightarrow> m
      | None \<Rightarrow> manual_review_record info pdf_path)))))"

definition resolve_metadata ::
  "(string \<Rightarrow> read_outcome) \<Rightarrow> network \<Rightarrow> settings \<Rightarrow> string \<Rightarrow> metadata raised_or" where
  "resolve_metadata reader net st pdf_path =
     (case extract_pdf_info reader pdf_path of
        Raised x \<Rightarrow> Raised x
      | Returned info \<Rightarrow> Returned (resolve_metadata_from net st info pdf_path))"

text \<open>
  The waterfall is exhausted: no lookup by identifier gave a record, the title search
  gave none of confidence at least 0.5, and neither fallback gave one.
\<close>

definition exhausted :: "network \<Rightarrow> settings \<Rightarrow> pdf_info \<Rightarrow> bool" where
  "exhausted net st info =
     (when_truthy (info_doi info) (crossref_lookup_doi net) = None
      \<and> when_truthy (info_isbn info) (isbn_lookup net) = None
      \<and> (case when_truthy (info_title_guess info) (crossref_search_title net) of
           Some m \<Rightarrow> confidence m < 1 / 2 | None \<Rightarrow> True)
      \<and> when_truthy (info_title_guess info) (semantic_scholar_search net) = None
      \<and> when_truthy (info_title_guess info) (zotero_search net st) = None)"

section \<open>Filename generation\<close>

text \<open>
  For the file name the characters matter beyond Latin-1, so here a Python string is
  the list of its code points.
\<close>

type_synonym ustring = "nat list"

text \<open>The characters that \<^verbatim>\<open>[<>:"/\\|?*]\<close> removes, and \<open>str.isspace\<close> (the class \<open>\s\<close>).\<close>

definition forbidden :: "nat \<Rightarrow> bool" where
  "forbidden c = (c \<in> {60, 62, 58, 34, 47, 92, 124, 63, 42})"

definition u_space :: "nat \<Rightarrow> bool" where
  "u_space c =
     ((9 \<le> c \<and> c \<le> 13) \<or> (28 \<le> c \<and> c \<le> 32) \<or> c = 133 \<or> c = 160 \<or> c = 5760
      \<or> (8192 \<le> c \<and> c \<le> 8202) \<or> c = 8232 \<or> c = 8233 \<or> c = 8239 \<or> c = 8287
      \<or> c = 12288)"

text \<open>\<open>re.sub(r'\s+', ' ', name)\<close>: every run of white space becomes one space.\<close>

function collapse_ws :: "ustring \<Rightarrow> ustring" where
  "collapse_ws [] = []"
| "collapse_ws (c # cs) =
     (if u_space c then 32 # collapse_ws (dropWhile u_space cs) else c # collapse_ws cs)"
  by pat_completeness auto
termination
  by (relation "measure length") (auto simp: length_dropWhile_le less_Suc_eq_le)

text \<open>\<open>name.strip()\<close>.\<close>

definition u_strip :: "ustring \<Rightarrow> ustring" where
  "u_strip s = rev (dropWhile u_space (rev (dropWhile u_space s)))"

text \<open>\<open>s.rsplit(' ', 1)[0]\<close>: what stands before the last space, or all of \<open>s\<close>.\<close>

definition rsplit_space_first :: "ustring \<Rightarrow> ustring" where
  "rsplit_space_first s =
     (if 32 \<in> set s then rev (tl (dropWhile (\<lambda>c. c \<noteq> 32) (rev s))) else s)"

text \<open>
  \<open>_sanitize_filename\<close>. The normaliser \<open>unicodedata.normalize("NFKD", _)\<close> of the
  standard library is the parameter \<open>nfkd\<close>.
\<close>

definition sanitize_filename :: "(ustring \<Rightarrow> ustring) \<Rightarrow> ustring \<Rightarrow> ustring" where
  "sanitize_filename nfkd name =
     (let name = nfkd name;
          name = filter (\<lambda>c. \<not> forbidden c) name;
          name = u_strip (collapse_ws name)
      in if length name > 200 then rsplit_space_first (take 200 name) else name)"

text \<open>
  What NFKD does to a string of ASCII characters and the combining marks U+0301
  (acute, combining class 230) and U+0323 (dot below, class 220): none of them
  decomposes, and each run of marks is put in the order of the classes, which
  \<open>canonical_order\<close> does by moving each mark behind the marks of a smaller class
  that follow it.
\<close>

definition ccc :: "nat \<Rightarrow> nat" where
  "ccc c = (if c = 0x301 then 230 else if c = 0x323 then 220 else 0)"

fun place :: "nat \<Rightarrow> ustring \<Rightarrow> ustring" where
  "place c [] = [c]"
| "place c (m # ms) = (if 0 < ccc m \<and> ccc m < ccc c then m # place c ms else c # m # ms)"

fun canonical_order :: "ustring \<Rightarrow> ustring" where
  "canonical_order [] = []"
| "canonical_order (c # cs) = place c (canonical_order cs)"

text \<open>
  A string is collapsed when its white space is single spaces, none followed by white
  space; it is stripped when it neither starts nor ends with white space.
\<close>

fun collapsed :: "ustring \<Rightarrow> bool" where
  "collapsed [] = True"
| "collapsed [c] = (\<not> u_space c \<or> c = 32)"
| "collapsed (c # d # cs) = ((\<not> u_space c \<or> (c = 32 \<and> \<not> u_space d)) \<and> collapsed (d # cs))"

definition stripped :: "ustring \<Rightarrow> bool" where
  "stripped s = (s = [] \<or> (\<not> u_space (hd s) \<and> \<not> u_space (last s)))"

section \<open>Scan and execute\<close>














section \<open>Undo journal: properties\<close>

lemma undo_single_cases:
  "undo_single index w = (r, w') \<Longrightarrow>
     ((\<exists>e. r = Returned (Inl e)) \<and> w' = w) \<or>
     ((\<exists>x. r = Raised x) \<and> w' = w) \<or>
     (0 \<le> index \<and> nat index < length (journal w)
      \<and> r = Returned (Inr (pp_str (parse_path (original_path (journal w ! nat index)))))
      \<and> journal w' = (journal w)[nat index := (journal w ! nat index)\<lparr>undone := True\<rparr>]
      \<and> shutil_move w (pp_str (parse_path (new_path (journal w ! nat index))))
            (pp_str (parse_path (original_path (journal w ! nat index)))) = Some (files w')
      \<and> can_move w' = can_move w
      \<and> clock w' = clock w)"
  by (auto simp: undo_single_def load_log_def save_log_def Let_def
      split: if_splits option.splits)

text \<open>
  C10. When \<open>undo_single\<close> returns an error, whichever it is, the journal is the one it
  read: no entry is added, removed or changed (and neither is any file); the journal is
  rewritten on the success path only. The same holds when the move raises.
\<close>

theorem undo_single_error_unchanged:
  "undo_single index w = (Returned (Inl e), w') \<or> undo_single index w = (Raised x, w')
   \<Longrightarrow> w' = w \<and> journal w' = journal w"
  by (auto dest: undo_single_cases)

text \<open>
  An entry whose renamed file is gone: the undo reports the missing target and the
  world, journal included, is the one before.
\<close>

theorem undo_single_error_unchanged_witness:
  "undo_single 0
     \<lparr>files = fmupd ''/d/other.pdf'' (7::nat) fmempty, can_move = (\<lambda>s d. True),
      journal = [\<lparr>original_path = ''/d/a.pdf'', new_path = ''/d/b.pdf'', timestamp = 0,
                  metadata_source = ''crossref'', session_id = ''s1'',
                  entry_metadata = None, undone = False\<rparr>],
      clock = 1\<rparr>
   = (Returned (Inl (TargetMissing ''/d/b.pdf'')),
      \<lparr>files = fmupd ''/d/other.pdf'' (7::nat) fmempty, can_move = (\<lambda>s d. True),
       journal = [\<lparr>original_path = ''/d/a.pdf'', new_path = ''/d/b.pdf'', timestamp = 0,
                   metadata_source = ''crossref'', session_id = ''s1'',
                   entry_metadata = None, undone = False\<rparr>],
       clock = 1\<rparr>)"
proof -
  let ?w = "\<lparr>files = fmupd ''/d/other.pdf'' (7::nat) fmempty, can_move = (\<lambda>s d. True),
      journal = [\<lparr>original_path = ''/d/a.pdf'', new_path = ''/d/b.pdf'', timestamp = 0,
                  metadata_source = ''crossref'', session_id = ''s1'',
                  entry_metadata = None, undone = False\<rparr>],
      clock = 1\<rparr>"
  obtain r w' where rw: "undo_single 0 ?w = (r, w')"
    by (cases "undo_single 0 ?w")
  have r: "r = Returned (Inl (TargetMissing ''/d/b.pdf''))"
    using rw by (simp add: undo_single_def load_log_def path_exists_def Let_def
        parse_path_def path_root_def split_on_def pp_str_def)
  from undo_single_error_unchanged [of 0 ?w "TargetMissing ''/d/b.pdf''" w' OSError] rw r
  have "w' = ?w" by simp
  with rw r show ?thesis by simp
qed

subsection \<open>Session undo\<close>

lemma undo_single_can_move:
  "undo_single index w = (r, w') \<Longrightarrow> can_move w' = can_move w"
  by (auto dest!: undo_single_cases)

lemma undo_single_returns:
  "\<forall>s d. can_move w s d \<Longrightarrow> \<exists>r w'. undo_single index w = (Returned r, w')"
  by (auto simp: undo_single_def load_log_def Let_def shutil_move_def path_exists_def
      split: option.splits)

text \<open>
  As long as no move raises, the session undo returns one outcome for each entry of the
  session that is not undone, in journal order, the returned errors among them.
\<close>

lemma undo_session_loop_returns:
  "\<forall>s d. can_move w s d \<Longrightarrow>
   \<exists>rs w'. undo_session_loop sid es acc w = (Returned rs, w')
     \<and> length rs = length acc
         + length (filter (\<lambda>e. session_id e = sid \<and> \<not> undone e) (map snd es))"
proof (induction es arbitrary: acc w)
  case Nil
  then show ?case by simp
next
  case (Cons ie es)
  obtain i entry where ie: "ie = (i, entry)" by (cases ie)
  show ?case
  proof (cases "session_id entry = sid \<and> \<not> undone entry")
    case True
    from undo_single_returns [OF Cons.prems, of "int i"]
    obtain r w1 where u: "undo_single (int i) w = (Returned r, w1)" by blast
    from undo_single_can_move [OF u] Cons.prems have "\<forall>s d. can_move w1 s d" by simp
    from Cons.IH [OF this, of "acc @ [r]"] True u ie show ?thesis by auto
  next
    case False
    from Cons.IH [OF Cons.prems, of acc] False ie show ?thesis by auto
  qed
qed

lemma undo_session_returns:
  "\<forall>s d. can_move w s d \<Longrightarrow>
   \<exists>rs w'. undo_session sid w = (Returned rs, w')
     \<and> length rs = length (filter (\<lambda>e. session_id e = sid \<and> \<not> undone e) (journal w))"
  using undo_session_loop_returns [of w sid "enumerate 0 (journal w)" "[]"]
  by (simp add: undo_session_def load_log_def)

text \<open>
  Three renames of one session, the second of which had its renamed file deleted
  since: the first and the third are undone, the second reports its missing target.
\<close>

lemma undo_session_partial_failure:
  "fst (undo_session ''s1''
     \<lparr>files = fmupd ''/d/n1.pdf'' (1::nat) (fmupd ''/d/n3.pdf'' 3 fmempty),
      can_move = (\<lambda>s d. True),
      journal =
        [\<lparr>original_path = ''/d/a1.pdf'', new_path = ''/d/n1.pdf'', timestamp = 0,
          metadata_source = ''crossref'', session_id = ''s1'', entry_metadata = None,
          undone = False\<rparr>,
         \<lparr>original_path = ''/d/a2.pdf'', new_path = ''/d/n2.pdf'', timestamp = 1,
          metadata_source = ''crossref'', session_id = ''s1'', entry_metadata = None,
          undone = False\<rparr>,
         \<lparr>original_path = ''/d/a3.pdf'', new_path = ''/d/n3.pdf'', timestamp = 2,
          metadata_source = ''crossref'', session_id = ''s1'', entry_metadata = None,
          undone = False\<rparr>],
      clock = 3\<rparr>)
   = Returned [Inr ''/d/a1.pdf'', Inl (TargetMissing ''/d/n2.pdf''), Inr ''/d/a3.pdf'']"
  by (simp add: undo_session_def load_log_def undo_single_def save_log_def Let_def
      path_exists_def shutil_move_def parse_path_def path_root_def split_on_def pp_str_def)

text \<open>
  C9. Three renames of one session; the directory \<open>/gone\<close>, from which the second file
  came, has been removed since, so the move back to \<open>/gone/a2.pdf\<close> raises. The first
  entry is undone; at the second the exception leaves \<open>undo_session\<close>: no list of
  results is returned, and the third entry is not attempted (its file stays at
  \<open>/d/n3.pdf\<close> and its entry stays not undone).
\<close>

theorem undo_session_aborts_on_exception:
  "undo_session ''s1''
     \<lparr>files = fmupd ''/d/n1.pdf'' (1::nat) (fmupd ''/d/n2.pdf'' 2 (fmupd ''/d/n3.pdf'' 3 fmempty)),
      can_move = (\<lambda>s d. d \<noteq> ''/gone/a2.pdf''),
      journal =
        [\<lparr>original_path = ''/d/a1.pdf'', new_path = ''/d/n1.pdf'', timestamp = 0,
          metadata_source = ''crossref'', session_id = ''s1'', entry_metadata = None,
          undone = False\<rparr>,
         \<lparr>original_path = ''/gone/a2.pdf'', new_path = ''/d/n2.pdf'', timestamp = 1,
          metadata_source = ''crossref'', session_id = ''s1'', entry_metadata = None,
          undone = False\<rparr>,
         \<lparr>original_path = ''/d/a3.pdf'', new_path = ''/d/n3.pdf'', timestamp = 2,
          metadata_source = ''crossref'', session_id = ''s1'', entry_metadata = None,
          undone = False\<rparr>],
      clock = 3\<rparr>
   = (Raised OSError,
     \<lparr>files = fmupd ''/d/a1.pdf'' (1::nat) (fmdrop ''/d/n1.pdf''
         (fmupd ''/d/n1.pdf'' (1::nat) (fmupd ''/d/n2.pdf'' 2 (fmupd ''/d/n3.pdf'' 3 fmempty)))),
      can_move = (\<lambda>s d. d \<noteq> ''/gone/a2.pdf''),
      journal =
        [\<lparr>original_path = ''/d/a1.pdf'', new_path = ''/d/n1.pdf'', timestamp = 0,
          metadata_source = ''crossref'', session_id = ''s1'', entry_metadata = None,
          undone = True\<rparr>,
         \<lparr>original_path = ''/gone/a2.pdf'', new_path = ''/d/n2.pdf'', timestamp = 1,
          metadata_source = ''crossref'', session_id = ''s1'', entry_metadata = None,
          undone = False\<rparr>,
         \<lparr>original_path = ''/d/a3.pdf'', new_path = ''/d/n3.pdf'', timestamp = 2,
          metadata_source = ''crossref'', session_id = ''s1'', entry_metadata = None,
          undone = False\<rparr>],
      clock = 3\<rparr>)"
  by (simp add: undo_session_def load_log_def undo_single_def save_log_def Let_def
      path_exists_def shutil_move_def parse_path_def path_root_def split_on_def pp_str_def)

section \<open>Rename executor: properties\<close>






subsection \<open>Paths of one more component\<close>















subsection \<open>One item\<close>







subsection \<open>Two items asking for one name\<close>

lemma files_log_rename [simp]: "files (log_rename a b c d e w) = files w"
  by (simp add: log_rename_def save_log_def load_log_def Let_def)

lemma can_move_log_rename [simp]: "can_move (log_rename a b c d e w) = can_move w"
  by (simp add: log_rename_def save_log_def load_log_def Let_def)











subsection \<open>Reading back the string of a path\<close>












section \<open>Rename and undo\<close>











section \<open>Identifier extraction: properties\<close>

lemma iter_sound:
  assumes m: "\<And>s r. r \<in> set (m s) \<Longrightarrow> \<exists>u\<in>L. s = u @ r"
  shows "r \<in> set (iter n m s) \<Longrightarrow> \<exists>u\<in>lang_pow n L. s = u @ r"
proof (induction n arbitrary: s)
  case 0
  then show ?case by simp
next
  case (Suc n)
  then obtain s1 where s1: "s1 \<in> set (m s)" and r: "r \<in> set (iter n m s1)" by auto
  from m [OF s1] obtain u where u: "u \<in> L" "s = u @ s1" by blast
  from Suc.IH [OF r] obtain v where v: "v \<in> lang_pow n L" "s1 = v @ r" by blast
  from u v show ?case by (intro bexI [of _ "u @ v"]) auto
qed

lemma matches_sound: "r \<in> set (matches rx s) \<Longrightarrow> \<exists>u\<in>lang rx. s = u @ r"
proof (induction rx arbitrary: s r)
  case Eps
  then show ?case by simp
next
  case (Class p)
  then show ?case by (cases s) (auto split: if_splits)
next
  case (Seq a b)
  then obtain s1 where s1: "s1 \<in> set (matches a s)" and r: "r \<in> set (matches b s1)" by auto
  from Seq.IH(1) [OF s1] obtain u where u: "u \<in> lang a" "s = u @ s1" by blast
  from Seq.IH(2) [OF r] obtain v where v: "v \<in> lang b" "s1 = v @ r" by blast
  from u v show ?case by (intro bexI [of _ "u @ v"]) auto
next
  case (Opt a)
  then show ?case by auto
next
  case (Times n a)
  then have "r \<in> set (iter n (matches a) s)" by simp
  from iter_sound [of "matches a" "lang a", OF Times.IH this] show ?case by simp
next
  case (Many lo hi p)
  define top where "top = (case hi of None \<Rightarrow> length (takeWhile p s)
                           | Some h \<Rightarrow> min (length (takeWhile p s)) h)"
  from Many have "r \<in> set (map (\<lambda>k. drop k s) (rev [lo..<Suc top]))"
    by (simp add: Let_def top_def del: upt_Suc)
  then obtain k where "k \<in> set [lo..<Suc top]" and rk: "r = drop k s"
    by (auto simp del: upt_Suc)
  then have "lo \<le> k" "k \<le> top" by (simp_all del: upt_Suc)
  then have k: "lo \<le> k" "k \<le> length (takeWhile p s)"
      "case hi of None \<Rightarrow> True | Some h \<Rightarrow> k \<le> h" "r = drop k s"
    using rk by (auto simp: top_def split: option.splits)
  have "take k (takeWhile p s @ dropWhile p s) = take k (takeWhile p s)"
    using k(2) by (simp del: takeWhile_dropWhile_id)
  then have "take k s = take k (takeWhile p s)" by simp
  then have "list_all p (take k s)"
    by (auto simp: list_all_iff dest!: in_set_takeD dest: set_takeWhileD)
  moreover have "length (take k s) = k" using k(2) length_takeWhile_le [of p s] by simp
  ultimately show ?case using k by (intro bexI [of _ "take k s"]) (auto split: option.splits)
qed

lemma digit_not_sep: "is_digit c \<Longrightarrow> \<not> dash_or_space c"
  by (auto simp: is_digit_def dash_or_space_def is_space_def)

lemma x_not_sep: "lower_char c = CHR ''x'' \<Longrightarrow> \<not> dash_or_space c"
  by (auto simp: lower_char_def dash_or_space_def is_space_def Let_def split: if_splits)

lemma strip_digit_sep:
  "u \<in> lang (Seq (Class is_digit) (Opt (Class dash_or_space))) \<Longrightarrow>
   \<exists>d. is_digit d \<and> filter (\<lambda>c. \<not> dash_or_space c) u = [d]"
  by (auto simp: digit_not_sep)

lemma strip_digits_pow:
  "u \<in> lang_pow n (lang (Seq (Class is_digit) (Opt (Class dash_or_space)))) \<Longrightarrow>
   length (filter (\<lambda>c. \<not> dash_or_space c) u) = n
   \<and> list_all is_digit (filter (\<lambda>c. \<not> dash_or_space c) u)"
proof (induction n arbitrary: u)
  case 0
  then show ?case by simp
next
  case (Suc n)
  then obtain a b where u: "u = a @ b"
    and a: "a \<in> lang (Seq (Class is_digit) (Opt (Class dash_or_space)))"
    and b: "b \<in> lang_pow n (lang (Seq (Class is_digit) (Opt (Class dash_or_space))))"
    unfolding lang_pow.simps by blast
  from strip_digit_sep [OF a] obtain d where "is_digit d"
    "filter (\<lambda>c. \<not> dash_or_space c) a = [d]" by blast
  with Suc.IH [OF b] u show ?case by simp
qed

lemma strip_isbn_prefix:
  "u \<in> lang (Opt (Seq (lit ''97'')
            (Seq (Class (\<lambda>c. c = CHR ''8'' \<or> c = CHR ''9'')) (Opt (Class dash_or_space))))) \<Longrightarrow>
   (length (filter (\<lambda>c. \<not> dash_or_space c) u) = 0
    \<or> length (filter (\<lambda>c. \<not> dash_or_space c) u) = 3)
   \<and> list_all is_digit (filter (\<lambda>c. \<not> dash_or_space c) u)"
  by (auto simp: dash_or_space_def is_space_def is_digit_def)

lemma strip_isbn_group:
  assumes "u \<in> lang ISBN_GROUP"
  shows "\<exists>ds c. filter (\<lambda>c. \<not> dash_or_space c) u = ds @ [c]
           \<and> (length ds = 9 \<or> length ds = 12) \<and> list_all is_digit ds
           \<and> (is_digit c \<or> lower_char c = CHR ''x'')"
proof -
  from assms obtain a b c where u: "u = a @ b @ [c]"
    and a: "a \<in> lang (Opt (Seq (lit ''97'')
            (Seq (Class (\<lambda>c. c = CHR ''8'' \<or> c = CHR ''9'')) (Opt (Class dash_or_space)))))"
    and b: "b \<in> lang_pow 9 (lang (Seq (Class is_digit) (Opt (Class dash_or_space))))"
    and c: "is_digit c \<or> lower_char c = CHR ''x''"
    unfolding ISBN_GROUP_def lang.simps by blast
  from c have nc: "\<not> dash_or_space c" by (auto dest: digit_not_sep x_not_sep)
  let ?f = "filter (\<lambda>c. \<not> dash_or_space c)"
  have "?f u = (?f a @ ?f b) @ [c]" using u nc by simp
  moreover have "length (?f a @ ?f b) = 9 \<or> length (?f a @ ?f b) = 12"
    using strip_isbn_prefix [OF a] strip_digits_pow [OF b] by auto
  moreover have "list_all is_digit (?f a @ ?f b)"
    using strip_isbn_prefix [OF a] strip_digits_pow [OF b] by simp
  ultimately show ?thesis using c by blast
qed

lemma search_group_first:
  "search_group label grp s = Some g \<Longrightarrow>
   \<exists>pre t. s = pre @ t \<and> first_group label grp t = Some g"
proof (induction s)
  case Nil
  then show ?case by simp
next
  case (Cons c cs)
  show ?case
  proof (cases "first_group label grp (c # cs)")
    case None
    with Cons.prems have "search_group label grp cs = Some g" by simp
    from Cons.IH [OF this] obtain pre t where "cs = pre @ t" "first_group label grp t = Some g"
      by blast
    then show ?thesis by (intro exI [of _ "c # pre"] exI [of _ t]) simp
  next
    case (Some h)
    with Cons.prems have "first_group label grp (c # cs) = Some g" by simp
    then show ?thesis by (intro exI [of _ "[]"] exI [of _ "c # cs"]) simp
  qed
qed

text \<open>
  C8, amended. The ISBN label is required. When the extraction yields a value, the text
  holds the label \<open>ISBN\<close> (in any case) somewhere, so a bare number in a text without
  the label is not captured; the value holds no hyphen and no white space, and it is 9
  or 12 digits followed by a digit or an \<open>X\<close>.
\<close>

lemma iter_complete:
  assumes m: "\<And>u r. u \<in> L \<Longrightarrow> r \<in> set (m (u @ r))"
  shows "u \<in> lang_pow n L \<Longrightarrow> r \<in> set (iter n m (u @ r))"
proof (induction n arbitrary: u)
  case 0
  then show ?case by simp
next
  case (Suc n)
  then obtain a b where u: "u = a @ b" and a: "a \<in> L" and b: "b \<in> lang_pow n L"
    by auto
  from m [OF a, of "b @ r"] Suc.IH [OF b] u show ?case by auto
qed

lemma takeWhile_all_append:
  "list_all p u \<Longrightarrow> takeWhile p (u @ r) = u @ takeWhile p r"
  by (induction u) auto

lemma matches_complete: "u \<in> lang rx \<Longrightarrow> r \<in> set (matches rx (u @ r))"
proof (induction rx arbitrary: u r)
  case Eps
  then show ?case by simp
next
  case (Class p)
  then show ?case by auto
next
  case (Seq a b)
  then obtain x y where u: "u = x @ y" and x: "x \<in> lang a" and y: "y \<in> lang b" by auto
  from Seq.IH(1) [OF x, of "y @ r"] Seq.IH(2) [OF y, of r] u show ?case by auto
next
  case (Opt a)
  then show ?case by auto
next
  case (Times n a)
  then have "u \<in> lang_pow n (lang a)" by simp
  from iter_complete [of "lang a" "matches a", OF Times.IH this] show ?case by simp
next
  case (Many lo hi p)
  then have u: "list_all p u" "lo \<le> length u"
    "case hi of None \<Rightarrow> True | Some h \<Rightarrow> length u \<le> h" by simp_all
  define top where "top = (case hi of None \<Rightarrow> length (takeWhile p (u @ r))
                           | Some h \<Rightarrow> min (length (takeWhile p (u @ r))) h)"
  have "length u \<le> length (takeWhile p (u @ r))"
    by (simp add: takeWhile_all_append [OF u(1)])
  with u(3) have "length u \<le> top" by (auto simp: top_def split: option.splits)
  with u(2) have "length u \<in> set [lo..<Suc top]" by (simp del: upt_Suc)
  then have "r \<in> set (map (\<lambda>k. drop k (u @ r)) (rev [lo..<Suc top]))"
    by (auto simp del: upt_Suc intro!: image_eqI [of _ _ "length u"])
  then show ?case by (simp add: Let_def top_def del: upt_Suc)
qed

lemma first_group_decomp:
  assumes "first_group label grp s = Some g"
  shows "\<exists>l post. s = l @ g @ post \<and> l \<in> lang label \<and> g \<in> lang grp"
proof -
  from assms obtain gs where "concat (map (\<lambda>s1. map (\<lambda>s2. take (length s1 - length s2) s1)
      (matches grp s1)) (matches label s)) = g # gs"
    by (auto simp: first_group_def split: list.splits)
  then have "g \<in> set (concat (map (\<lambda>s1. map (\<lambda>s2. take (length s1 - length s2) s1)
      (matches grp s1)) (matches label s)))"
    by (metis list.set_intros(1))
  then obtain s1 s2 where s1: "s1 \<in> set (matches label s)"
    and s2: "s2 \<in> set (matches grp s1)" and g: "g = take (length s1 - length s2) s1"
    by auto
  from matches_sound [OF s1] obtain l where l: "l \<in> lang label" "s = l @ s1" by blast
  from matches_sound [OF s2] obtain u where u: "u \<in> lang grp" "s1 = u @ s2" by blast
  from g u have "g = u" by simp
  with l u show ?thesis by (intro exI [of _ l] exI [of _ s2]) simp
qed

lemma first_group_complete:
  assumes "l \<in> lang label" "g \<in> lang grp"
  shows "first_group label grp (l @ g @ post) \<noteq> None"
proof -
  from matches_complete [OF assms(1), of "g @ post"]
  have 1: "g @ post \<in> set (matches label (l @ g @ post))" .
  from matches_complete [OF assms(2), of post]
  have 2: "post \<in> set (matches grp (g @ post))" .
  from 2 have "matches grp (g @ post) \<noteq> []" by auto
  with 1 have "\<exists>s1\<in>set (matches label (l @ g @ post)). matches grp s1 \<noteq> []"
    by (intro bexI [of _ "g @ post"])
  then have "concat (map (\<lambda>s1. map (\<lambda>s2. take (length s1 - length s2) s1) (matches grp s1))
                        (matches label (l @ g @ post))) \<noteq> []"
    by simp
  then show ?thesis
    by (simp add: first_group_def split: list.splits)
qed

lemma search_group_complete:
  "first_group label grp t \<noteq> None \<Longrightarrow> search_group label grp (pre @ t) \<noteq> None"
proof (induction pre)
  case Nil
  then show ?case by (cases t) (auto split: option.splits)
next
  case (Cons c pre)
  then show ?case by (auto split: option.splits)
qed

lemma lower_char_ISBN:
  "lower_char CHR ''I'' = CHR ''i''" "lower_char CHR ''S'' = CHR ''s''"
  "lower_char CHR ''B'' = CHR ''b''" "lower_char CHR ''N'' = CHR ''n''"
  by (simp_all add: lower_char_def)

lemma lang_Seq_Class_Cons: "c # v \<in> lang (Seq (Class p) b) \<longleftrightarrow> p c \<and> v \<in> lang b"
proof
  assume "c # v \<in> lang (Seq (Class p) b)"
  then show "p c \<and> v \<in> lang b" by auto
next
  assume "p c \<and> v \<in> lang b"
  then have "c # v = [c] @ v \<and> [c] \<in> lang (Class p) \<and> v \<in> lang b" by simp
  then show "c # v \<in> lang (Seq (Class p) b)" unfolding lang.simps(3) by blast
qed

lemma lang_lit_i: "a \<in> lang (lit_i xs) \<longleftrightarrow> lower a = lower xs"
proof (induction xs arbitrary: a)
  case Nil
  then show ?case by (simp add: lower_def)
next
  case (Cons x xs)
  show ?case
  proof (cases a)
    case Nil
    then show ?thesis by (simp add: lower_def)
  next
    case (Cons c v)
    have "a \<in> lang (lit_i (x # xs)) \<longleftrightarrow>
          lower_char c = lower_char x \<and> v \<in> lang (lit_i xs)"
      unfolding Cons lit_i.simps by (rule lang_Seq_Class_Cons)
    with Cons.IH [of v] Cons show ?thesis by (simp add: lower_def)
  qed
qed

lemma lang_lit_i_ISBN: "lang (lit_i ''ISBN'') = {a. lower a = ''isbn''}"
  using lang_lit_i [of _ "''ISBN''"] by (auto simp: lower_def lower_char_ISBN)

lemma lang_ISBN_LABEL:
  "l \<in> lang ISBN_LABEL \<longleftrightarrow>
     (\<exists>a b ws. l = a @ b @ ws \<and> lower a = ''isbn'' \<and> (b = [] \<or> b = ''-'' \<or> b = '':'')
        \<and> list_all is_space ws)"
proof -
  have "lang ISBN_LABEL =
      {a @ b @ ws | a b ws. a \<in> lang (lit_i ''ISBN'')
         \<and> b \<in> lang (Opt (Class (\<lambda>c. c = CHR ''-'' \<or> c = CHR '':'')))
         \<and> ws \<in> lang (Many 0 None is_space)}"
    unfolding ISBN_LABEL_def lang.simps(3) [of "lit_i ''ISBN''"] lang.simps(3) [of "Opt _"]
    by blast
  also have "\<dots> = {a @ b @ ws | a b ws. lower a = ''isbn''
         \<and> (b = [] \<or> b = ''-'' \<or> b = '':'') \<and> list_all is_space ws}"
    unfolding lang_lit_i_ISBN by auto
  finally show ?thesis by blast
qed

lemma find_isbn_iff:
  "find_isbn full_text \<noteq> None \<longleftrightarrow>
     (\<exists>pre l g post. full_text = pre @ l @ g @ post \<and> l \<in> lang ISBN_LABEL
        \<and> g \<in> lang ISBN_GROUP)"
proof
  assume "find_isbn full_text \<noteq> None"
  then obtain g where g: "search_group ISBN_LABEL ISBN_GROUP full_text = Some g"
    by (auto simp: find_isbn_def split: option.splits)
  from search_group_first [OF g] obtain pre t where t: "full_text = pre @ t"
    "first_group ISBN_LABEL ISBN_GROUP t = Some g" by blast
  from first_group_decomp [OF t(2)] t(1)
  show "\<exists>pre l g post. full_text = pre @ l @ g @ post \<and> l \<in> lang ISBN_LABEL
        \<and> g \<in> lang ISBN_GROUP" by blast
next
  assume "\<exists>pre l g post. full_text = pre @ l @ g @ post \<and> l \<in> lang ISBN_LABEL
        \<and> g \<in> lang ISBN_GROUP"
  then obtain pre l g post where d: "full_text = pre @ l @ g @ post"
    "l \<in> lang ISBN_LABEL" "g \<in> lang ISBN_GROUP" by blast
  from search_group_complete [OF first_group_complete [OF d(2,3), of post], of pre] d(1)
  show "find_isbn full_text \<noteq> None"
    by (auto simp: find_isbn_def split: option.splits)
qed

lemma find_isbn_value:
  assumes "find_isbn full_text = Some v"
  shows "\<exists>pre l g post. full_text = pre @ l @ g @ post \<and> l \<in> lang ISBN_LABEL
        \<and> g \<in> lang ISBN_GROUP \<and> v = filter (\<lambda>c. \<not> dash_or_space c) g"
proof -
  from assms obtain g where g: "search_group ISBN_LABEL ISBN_GROUP full_text = Some g"
    and v: "v = filter (\<lambda>c. \<not> dash_or_space c) g"
    by (auto simp: find_isbn_def split: option.splits)
  from search_group_first [OF g] obtain pre t where t: "full_text = pre @ t"
    "first_group ISBN_LABEL ISBN_GROUP t = Some g" by blast
  from first_group_decomp [OF t(2)] t(1) v show ?thesis by blast
qed

text \<open>
  C8, amended. The ISBN label is required. The extraction yields a value exactly when
  the text holds, somewhere, the label \<open>ISBN\<close> (in any case), then at most one of \<open>-\<close>
  and \<open>:\<close>, then white space or none, and directly after it a number that the group of
  the pattern matches; so a bare number in a text without the label is not captured.
  The value is such a number of the text with its hyphens and white space taken out: 9
  or 12 digits followed by a digit or an \<open>X\<close>. The text is one of characters below
  256, where \<open>re.IGNORECASE\<close> pairs a letter of the label with its other case only.
\<close>

theorem find_isbn_needs_label:
  "(find_isbn full_text \<noteq> None \<longleftrightarrow>
      (\<exists>pre a b ws g post. full_text = pre @ a @ b @ ws @ g @ post \<and> lower a = ''isbn''
          \<and> (b = [] \<or> b = ''-'' \<or> b = '':'') \<and> list_all is_space ws
          \<and> g \<in> lang ISBN_GROUP))
   \<and> (find_isbn full_text = Some v \<longrightarrow>
        (\<exists>pre a b ws g post. full_text = pre @ a @ b @ ws @ g @ post \<and> lower a = ''isbn''
            \<and> (b = [] \<or> b = ''-'' \<or> b = '':'') \<and> list_all is_space ws
            \<and> g \<in> lang ISBN_GROUP \<and> v = filter (\<lambda>c. \<not> dash_or_space c) g)
        \<and> list_all (\<lambda>c. \<not> dash_or_space c) v
        \<and> (\<exists>ds c. v = ds @ [c] \<and> (length ds = 9 \<or> length ds = 12) \<and> list_all is_digit ds
              \<and> (is_digit c \<or> lower_char c = CHR ''x'')))"
proof (intro conjI impI)
  have "(\<exists>pre l g post. full_text = pre @ l @ g @ post \<and> l \<in> lang ISBN_LABEL
            \<and> g \<in> lang ISBN_GROUP)
        \<longleftrightarrow> (\<exists>pre a b ws g post. full_text = pre @ a @ b @ ws @ g @ post
              \<and> lower a = ''isbn'' \<and> (b = [] \<or> b = ''-'' \<or> b = '':'')
              \<and> list_all is_space ws \<and> g \<in> lang ISBN_GROUP)"
  proof
    assume "\<exists>pre l g post. full_text = pre @ l @ g @ post \<and> l \<in> lang ISBN_LABEL
            \<and> g \<in> lang ISBN_GROUP"
    then obtain pre l g post where d: "full_text = pre @ l @ g @ post"
      "l \<in> lang ISBN_LABEL" "g \<in> lang ISBN_GROUP" by blast
    from d(2) obtain a b ws where l: "l = a @ b @ ws" "lower a = ''isbn''"
      "b = [] \<or> b = ''-'' \<or> b = '':''" "list_all is_space ws"
      unfolding lang_ISBN_LABEL by blast
    from d(1) l(1) have "full_text = pre @ a @ b @ ws @ g @ post" by simp
    with l d(3) show "\<exists>pre a b ws g post. full_text = pre @ a @ b @ ws @ g @ post
              \<and> lower a = ''isbn'' \<and> (b = [] \<or> b = ''-'' \<or> b = '':'')
              \<and> list_all is_space ws \<and> g \<in> lang ISBN_GROUP" by blast
  next
    assume "\<exists>pre a b ws g post. full_text = pre @ a @ b @ ws @ g @ post
              \<and> lower a = ''isbn'' \<and> (b = [] \<or> b = ''-'' \<or> b = '':'')
              \<and> list_all is_space ws \<and> g \<in> lang ISBN_GROUP"
    then obtain pre a b ws g post where d: "full_text = pre @ a @ b @ ws @ g @ post"
      "lower a = ''isbn''" "b = [] \<or> b = ''-'' \<or> b = '':''" "list_all is_space ws"
      "g \<in> lang ISBN_GROUP" by blast
    from d(2,3,4) have "a @ b @ ws \<in> lang ISBN_LABEL"
      unfolding lang_ISBN_LABEL by blast
    moreover from d(1) have "full_text = pre @ (a @ b @ ws) @ g @ post" by simp
    ultimately show "\<exists>pre l g post. full_text = pre @ l @ g @ post \<and> l \<in> lang ISBN_LABEL
            \<and> g \<in> lang ISBN_GROUP" using d(5) by blast
  qed
  with find_isbn_iff [of full_text]
  show "find_isbn full_text \<noteq> None \<longleftrightarrow>
      (\<exists>pre a b ws g post. full_text = pre @ a @ b @ ws @ g @ post \<and> lower a = ''isbn''
          \<and> (b = [] \<or> b = ''-'' \<or> b = '':'') \<and> list_all is_space ws
          \<and> g \<in> lang ISBN_GROUP)"
    by simp
next
  assume v: "find_isbn full_text = Some v"
  from find_isbn_value [OF v] obtain pre l g post where d: "full_text = pre @ l @ g @ post"
    "l \<in> lang ISBN_LABEL" "g \<in> lang ISBN_GROUP" "v = filter (\<lambda>c. \<not> dash_or_space c) g"
    by blast
  from d(2) obtain a b ws where l: "l = a @ b @ ws" "lower a = ''isbn''"
    "b = [] \<or> b = ''-'' \<or> b = '':''" "list_all is_space ws"
    unfolding lang_ISBN_LABEL by blast
  from d(1) l(1) have "full_text = pre @ a @ b @ ws @ g @ post" by simp
  with l d(3,4)
  show "\<exists>pre a b ws g post. full_text = pre @ a @ b @ ws @ g @ post \<and> lower a = ''isbn''
            \<and> (b = [] \<or> b = ''-'' \<or> b = '':'') \<and> list_all is_space ws
            \<and> g \<in> lang ISBN_GROUP \<and> v = filter (\<lambda>c. \<not> dash_or_space c) g"
    by blast
  show "list_all (\<lambda>c. \<not> dash_or_space c) v" by (simp add: d(4) list_all_iff)
  from strip_isbn_group [OF d(3)] d(4)
  show "\<exists>ds c. v = ds @ [c] \<and> (length ds = 9 \<or> length ds = 12) \<and> list_all is_digit ds
              \<and> (is_digit c \<or> lower_char c = CHR ''x'')" by simp
qed

theorem find_isbn_needs_label_witness:
  "find_isbn ''see isbn: 978-0-306-40615-7 x'' = Some ''9780306406157''
   \<and> (\<exists>pre a b ws g post. ''see isbn: 978-0-306-40615-7 x'' = pre @ a @ b @ ws @ g @ post
         \<and> lower a = ''isbn'' \<and> (b = [] \<or> b = ''-'' \<or> b = '':'') \<and> list_all is_space ws
         \<and> g \<in> lang ISBN_GROUP \<and> ''9780306406157'' = filter (\<lambda>c. \<not> dash_or_space c) g)
   \<and> list_all (\<lambda>c. \<not> dash_or_space c) ''9780306406157''
   \<and> (\<exists>ds c. ''9780306406157'' = ds @ [c] \<and> (length ds = 9 \<or> length ds = 12)
         \<and> list_all is_digit ds \<and> (is_digit c \<or> lower_char c = CHR ''x''))"
proof -
  have e: "find_isbn ''see isbn: 978-0-306-40615-7 x'' = Some ''9780306406157''"
    by code_simp
  from find_isbn_needs_label [of "''see isbn: 978-0-306-40615-7 x''" "''9780306406157''"] e
  show ?thesis by blast
qed

text \<open>
  A document whose text is a bare thirteen-digit ISBN, with no label: no ISBN is
  extracted.
\<close>

theorem bare_isbn_counterexample:
  "find_isbn ''9780306406157'' = None
   \<and> extract_pdf_info
      (\<lambda>p. Document \<lparr>doc_metadata = [], doc_pages = [''9780306406157'']\<rparr>) ''/d/book.pdf''
   = Returned \<lparr>info_doi = None, info_isbn = None, info_title_guess = Some ''9780306406157'',
       info_text_snippet = ''9780306406157'', info_pdf_metadata = []\<rparr>"
  by code_simp

section \<open>Resolution waterfall: properties\<close>

lemma when_truthy_Some:
  "when_truthy x f = Some m \<Longrightarrow> \<exists>s. x = Some s \<and> s \<noteq> [] \<and> f s = Some m"
  by (cases x) (auto split: if_splits)

lemma crossref_lookup_doi_source:
  "crossref_lookup_doi net d = Some m \<Longrightarrow> source m = crossref"
  by (auto simp: crossref_lookup_doi_def parse_crossref_item_def Let_def
      split: http.splits if_splits)

lemma crossref_search_title_source:
  "crossref_search_title net t = Some m \<Longrightarrow> source m = crossref"
  by (auto simp: crossref_search_title_def parse_crossref_item_def Let_def
      split: http.splits if_splits list.splits)

lemma semantic_scholar_search_source:
  "semantic_scholar_search net t = Some m \<Longrightarrow> source m = semantic_scholar"
  by (auto simp: semantic_scholar_search_def split: http.splits if_splits list.splits)

lemma isbn_lookup_source:
  "isbn_lookup net i = Some m \<Longrightarrow> source m = open_library \<or> source m = google_books"
  by (auto simp: isbn_lookup_def open_library_isbn_def google_books_isbn_def
      split: http.splits if_splits list.splits option.splits)

lemma zotero_search_source:
  "zotero_search net st t = Some m \<Longrightarrow> source m = zotero"
  by (auto simp: zotero_search_def split: http.splits if_splits list.splits)

lemma source_manual_review_record [simp]:
  "source (manual_review_record info p) = manual_review"
  by (simp add: manual_review_record_def)

lemma resolve_exhausted:
  "exhausted net st info \<Longrightarrow>
   resolve_metadata_from net st info p = manual_review_record info p"
  by (auto simp: exhausted_def resolve_metadata_from_def Let_def split: option.splits)

lemma resolve_source_manual:
  "source (resolve_metadata_from net st info p) = manual_review \<longleftrightarrow> exhausted net st info"
proof
  assume "exhausted net st info"
  then show "source (resolve_metadata_from net st info p) = manual_review"
    by (simp add: resolve_exhausted)
next
  assume src: "source (resolve_metadata_from net st info p) = manual_review"
  show "exhausted net st info"
  proof (rule ccontr)
    assume "\<not> exhausted net st info"
    then have "source (resolve_metadata_from net st info p) \<noteq> manual_review"
      by (auto simp: exhausted_def resolve_metadata_from_def Let_def
          split: option.splits
          dest!: when_truthy_Some
          dest: crossref_lookup_doi_source isbn_lookup_source crossref_search_title_source
            semantic_scholar_search_source zotero_search_source)
    with src show False by simp
  qed
qed

lemma when_truthy_None: "(\<And>s. f s = None) \<Longrightarrow> when_truthy x f = None"
  by (cases x) auto

lemma all_failed_exhausted:
  "exhausted \<lparr>crossref_works = \<lambda>d. Failed, crossref_query = \<lambda>t. Failed,
      semantic_scholar_papers = \<lambda>t. Failed, open_library_books = \<lambda>i. Failed,
      google_books_volumes = \<lambda>i. Failed, zotero_items = \<lambda>ty i k t. Failed\<rparr> st info"
  by (simp add: exhausted_def when_truthy_None crossref_lookup_doi_def isbn_lookup_def
      open_library_isbn_def google_books_isbn_def crossref_search_title_def
      semantic_scholar_search_def zotero_search_def)

lemma resolve_metadata_returns:
  "reader p \<noteq> ReadRaised \<Longrightarrow>
   \<exists>info. extract_pdf_info reader p = Returned info
     \<and> resolve_metadata reader net st p = Returned (resolve_metadata_from net st info p)"
  by (cases "reader p") (simp_all add: resolve_metadata_def extract_pdf_info_def Let_def)

text \<open>
  C1. A document that \<open>fitz.open\<close> opens and whose pages cannot be read, as an encrypted
  one: the exception raised while reading is not caught in \<open>extract_pdf_info\<close>, whose
  \<open>try\<close> holds \<open>fitz.open\<close> only, and not in \<open>resolve_metadata\<close>. It leaves
  \<open>resolve_metadata\<close>: no record is returned, whatever the providers would answer.
  For every other document one record is returned, the record for manual review
  exactly when the waterfall is exhausted (\<open>resolve_metadata_returns\<close>,
  \<open>resolve_source_manual\<close>).
\<close>

theorem resolve_metadata_raises:
  "resolve_metadata (\<lambda>p. ReadRaised) net st ''/d/locked.pdf'' = Raised DocumentError"
  by (simp add: resolve_metadata_def extract_pdf_info_def)

text \<open>
  C5. When the waterfall reaches the title search and the search returns a record, that
  record is the result if and only if its confidence is at least 0.5; below 0.5 the
  result is what the next providers give: Semantic Scholar, then Zotero, then the
  record for manual review.
\<close>

theorem title_search_threshold:
  assumes "when_truthy (info_doi info) (crossref_lookup_doi net) = None"
    and "when_truthy (info_isbn info) (isbn_lookup net) = None"
    and "info_title_guess info = Some t" and "t \<noteq> []"
    and "crossref_search_title net t = Some m"
  shows "(resolve_metadata_from net st info p = m) = (1 / 2 \<le> confidence m)
    \<and> (confidence m < 1 / 2 \<longrightarrow>
         resolve_metadata_from net st info p =
           (case semantic_scholar_search net t of
              Some m' \<Rightarrow> m'
            | None \<Rightarrow> (case zotero_search net st t of
                         Some m' \<Rightarrow> m'
                       | None \<Rightarrow> manual_review_record info p)))"
proof (cases "1 / 2 \<le> confidence m")
  case True
  with assms show ?thesis by (simp add: resolve_metadata_from_def)
next
  case False
  let ?rest = "case semantic_scholar_search net t of
              Some m' \<Rightarrow> m'
            | None \<Rightarrow> (case zotero_search net st t of
                         Some m' \<Rightarrow> m'
                       | None \<Rightarrow> manual_review_record info p)"
  from False assms have eq: "resolve_metadata_from net st info p = ?rest"
    by (simp add: resolve_metadata_from_def split: option.splits)
  have "source ?rest \<noteq> crossref"
    by (auto split: option.splits
        dest: semantic_scholar_search_source zotero_search_source)
  moreover have "source m = crossref"
    using assms(5) by (rule crossref_search_title_source)
  ultimately have "?rest \<noteq> m" by auto
  with False eq show ?thesis by simp
qed

text \<open>
  A title search of confidence 0.3 (three of ten words) falls through to Semantic
  Scholar; one of confidence 0.5 (one of two words) is the result.
\<close>

theorem title_search_threshold_witness:
  "resolve_metadata_from
     \<lparr>crossref_works = \<lambda>d. Failed,
      crossref_query = \<lambda>t. Response 200
        [\<lparr>ci_author = [], ci_title = [''a b c''], ci_published_print = [[]],
          ci_published_online = [[]], ci_created = [[]], ci_short_container_title = [],
          ci_container_title = [], ci_publisher = [], ci_DOI = []\<rparr>],
      semantic_scholar_papers = \<lambda>t. Response 200
        [\<lparr>s2_title = ''found'', s2_authors = [], s2_year = YearAbsent, s2_venue = [],
          s2_DOI = []\<rparr>],
      open_library_books = \<lambda>i. Failed,
      google_books_volumes = \<lambda>i. Failed, zotero_items = \<lambda>ty i k t. Failed\<rparr>
     \<lparr>zotero_api_key = [], zotero_library_id = [], zotero_library_type = ''user'',
      template = ''standard'', custom_template = []\<rparr>
     \<lparr>info_doi = None, info_isbn = None, info_title_guess = Some ''a b c d e f g h i j'',
      info_text_snippet = [], info_pdf_metadata = []\<rparr> ''/d/x.pdf''
   = \<lparr>title = ''found'', authors = [], year = [], journal = [], publisher = [],
      doi = Some [], source = semantic_scholar, confidence = 7 / 10,
      isbn = None, zotero_key = None\<rparr>
   \<and> resolve_metadata_from
     \<lparr>crossref_works = \<lambda>d. Failed,
      crossref_query = \<lambda>t. Response 200
        [\<lparr>ci_author = [], ci_title = [''a b c''], ci_published_print = [[]],
          ci_published_online = [[]], ci_created = [[]], ci_short_container_title = [],
          ci_container_title = [], ci_publisher = [], ci_DOI = []\<rparr>],
      semantic_scholar_papers = \<lambda>t. Response 200
        [\<lparr>s2_title = ''found'', s2_authors = [], s2_year = YearAbsent, s2_venue = [],
          s2_DOI = []\<rparr>],
      open_library_books = \<lambda>i. Failed,
      google_books_volumes = \<lambda>i. Failed, zotero_items = \<lambda>ty i k t. Failed\<rparr>
     \<lparr>zotero_api_key = [], zotero_library_id = [], zotero_library_type = ''user'',
      template = ''standard'', custom_template = []\<rparr>
     \<lparr>info_doi = None, info_isbn = None, info_title_guess = Some ''a z'',
      info_text_snippet = [], info_pdf_metadata = []\<rparr> ''/d/x.pdf''
   = \<lparr>title = ''a b c'', authors = [], year = [], journal = [], publisher = [],
      doi = Some [], source = crossref, confidence = 1 / 2,
      isbn = None, zotero_key = None\<rparr>"
proof -
  let ?net = "\<lparr>crossref_works = \<lambda>d. Failed,
      crossref_query = \<lambda>t. Response 200
        [\<lparr>ci_author = [], ci_title = [''a b c''], ci_published_print = [[]],
          ci_published_online = [[]], ci_created = [[]], ci_short_container_title = [],
          ci_container_title = [], ci_publisher = [], ci_DOI = []\<rparr>],
      semantic_scholar_papers = \<lambda>t. Response 200
        [\<lparr>s2_title = ''found'', s2_authors = [], s2_year = YearAbsent, s2_venue = [],
          s2_DOI = []\<rparr>],
      open_library_books = \<lambda>i. Failed,
      google_books_volumes = \<lambda>i. Failed, zotero_items = \<lambda>ty i k t. Failed\<rparr>"
  let ?st = "\<lparr>zotero_api_key = [], zotero_library_id = [], zotero_library_type = ''user'',
      template = ''standard'', custom_template = []\<rparr>"
  let ?lo = "\<lparr>info_doi = None, info_isbn = None, info_title_guess = Some ''a b c d e f g h i j'',
      info_text_snippet = [], info_pdf_metadata = []\<rparr>"
  let ?hi = "\<lparr>info_doi = None, info_isbn = None, info_title_guess = Some ''a z'',
      info_text_snippet = [], info_pdf_metadata = []\<rparr>"
  let ?m3 = "\<lparr>title = ''a b c'', authors = [], year = [], journal = [], publisher = [],
      doi = Some [], source = crossref, confidence = 3 / 10,
      isbn = None, zotero_key = None\<rparr>"
  let ?m5 = "\<lparr>title = ''a b c'', authors = [], year = [], journal = [], publisher = [],
      doi = Some [], source = crossref, confidence = 1 / 2,
      isbn = None, zotero_key = None\<rparr>"
  have s3: "crossref_search_title ?net ''a b c d e f g h i j'' = Some ?m3"
    by code_simp
  have s5: "crossref_search_title ?net ''a z'' = Some ?m5"
    by code_simp
  have ss: "semantic_scholar_search ?net ''a b c d e f g h i j''
      = Some \<lparr>title = ''found'', authors = [], year = [], journal = [], publisher = [],
      doi = Some [], source = semantic_scholar, confidence = 7 / 10,
      isbn = None, zotero_key = None\<rparr>"
    by (simp add: semantic_scholar_search_def)
  have lo: "resolve_metadata_from ?net ?st ?lo ''/d/x.pdf''
      = \<lparr>title = ''found'', authors = [], year = [], journal = [], publisher = [],
      doi = Some [], source = semantic_scholar, confidence = 7 / 10,
      isbn = None, zotero_key = None\<rparr>"
    using title_search_threshold [of ?lo ?net "''a b c d e f g h i j''" ?m3 ?st "''/d/x.pdf''"] s3 ss
    by simp
  have hi: "resolve_metadata_from ?net ?st ?hi ''/d/x.pdf'' = ?m5"
    using title_search_threshold [of ?hi ?net "''a z''" ?m5 ?st "''/d/x.pdf''"] s5
    by simp
  from lo hi show ?thesis by simp
qed

lemma splitext_raw_scan: "splitext_root ''raw_scan.pdf'' = ''raw_scan''"
  by code_simp

text \<open>
  C6, amended. When the waterfall is exhausted the result is the record for manual
  review: its title is the title guess, or the base file name without its extension
  when there is no guess; authors, year, journal and publisher are empty; \<open>doi\<close> is
  the DOI extracted from the document, \<open>None\<close> when none was; the source is
  \<open>manual_review\<close> and the confidence 0. A document named \<open>raw_scan.pdf\<close> from which
  no DOI, no ISBN and no title guess are extracted resolves to the title \<open>raw_scan\<close>,
  no DOI and confidence 0, whatever the network does.
\<close>

theorem manual_review_record_fields:
  "(exhausted net st info \<longrightarrow>
      resolve_metadata_from net st info p =
        \<lparr>title = (case info_title_guess info of
                     Some t \<Rightarrow> if t \<noteq> [] then t else splitext_root (path_name p)
                   | None \<Rightarrow> splitext_root (path_name p)),
         authors = [], year = [], journal = [], publisher = [],
         doi = info_doi info, source = manual_review, confidence = 0,
         isbn = None, zotero_key = None\<rparr>)
   \<and> (extract_pdf_info reader q = Returned extracted
      \<and> info_doi extracted = None
      \<and> info_isbn extracted = None
      \<and> info_title_guess extracted = None
      \<and> path_name q = ''raw_scan.pdf'' \<longrightarrow>
      resolve_metadata reader net st q =
        Returned \<lparr>title = ''raw_scan'', authors = [], year = [], journal = [], publisher = [],
         doi = None, source = manual_review, confidence = 0,
         isbn = None, zotero_key = None\<rparr>)"
proof (intro conjI impI)
  assume "exhausted net st info"
  then show "resolve_metadata_from net st info p =
        \<lparr>title = (case info_title_guess info of
                     Some t \<Rightarrow> if t \<noteq> [] then t else splitext_root (path_name p)
                   | None \<Rightarrow> splitext_root (path_name p)),
         authors = [], year = [], journal = [], publisher = [],
         doi = info_doi info, source = manual_review, confidence = 0,
         isbn = None, zotero_key = None\<rparr>"
    by (cases "info_title_guess info") (simp_all add: resolve_exhausted manual_review_record_def)
next
  assume a: "extract_pdf_info reader q = Returned extracted
      \<and> info_doi extracted = None
      \<and> info_isbn extracted = None
      \<and> info_title_guess extracted = None
      \<and> path_name q = ''raw_scan.pdf''"
  then have "exhausted net st extracted"
    by (simp add: exhausted_def)
  with a show "resolve_metadata reader net st q =
        Returned \<lparr>title = ''raw_scan'', authors = [], year = [], journal = [], publisher = [],
         doi = None, source = manual_review, confidence = 0,
         isbn = None, zotero_key = None\<rparr>"
    by (simp add: resolve_metadata_def resolve_exhausted manual_review_record_def
        splitext_raw_scan)
qed

theorem manual_review_record_fields_witness:
  "exhausted
     \<lparr>crossref_works = \<lambda>d. Failed, crossref_query = \<lambda>t. Failed,
      semantic_scholar_papers = \<lambda>t. Failed, open_library_books = \<lambda>i. Failed,
      google_books_volumes = \<lambda>i. Failed, zotero_items = \<lambda>ty i k t. Failed\<rparr>
     \<lparr>zotero_api_key = ''key'', zotero_library_id = ''42'', zotero_library_type = ''user'',
      template = ''standard'', custom_template = []\<rparr>
     \<lparr>info_doi = Some ''10.1000/xyz'', info_isbn = None,
      info_title_guess = Some ''A Study of Things'', info_text_snippet = [],
      info_pdf_metadata = []\<rparr>
   \<and> resolve_metadata_from
     \<lparr>crossref_works = \<lambda>d. Failed, crossref_query = \<lambda>t. Failed,
      semantic_scholar_papers = \<lambda>t. Failed, open_library_books = \<lambda>i. Failed,
      google_books_volumes = \<lambda>i. Failed, zotero_items = \<lambda>ty i k t. Failed\<rparr>
     \<lparr>zotero_api_key = ''key'', zotero_library_id = ''42'', zotero_library_type = ''user'',
      template = ''standard'', custom_template = []\<rparr>
     \<lparr>info_doi = Some ''10.1000/xyz'', info_isbn = None,
      info_title_guess = Some ''A Study of Things'', info_text_snippet = [],
      info_pdf_metadata = []\<rparr> ''/d/x.pdf''
   = \<lparr>title = ''A Study of Things'', authors = [], year = [], journal = [], publisher = [],
      doi = Some ''10.1000/xyz'', source = manual_review, confidence = 0,
      isbn = None, zotero_key = None\<rparr>
   \<and> path_name ''/scans/raw_scan.pdf'' = ''raw_scan.pdf''
   \<and> extract_pdf_info (\<lambda>p. Document \<lparr>doc_metadata = [], doc_pages = []\<rparr>)
       ''/scans/raw_scan.pdf''
     = Returned \<lparr>info_doi = None, info_isbn = None, info_title_guess = None,
        info_text_snippet = [], info_pdf_metadata = []\<rparr>
   \<and> resolve_metadata (\<lambda>p. Document \<lparr>doc_metadata = [], doc_pages = []\<rparr>)
     \<lparr>crossref_works = \<lambda>d. Failed, crossref_query = \<lambda>t. Failed,
      semantic_scholar_papers = \<lambda>t. Failed, open_library_books = \<lambda>i. Failed,
      google_books_volumes = \<lambda>i. Failed, zotero_items = \<lambda>ty i k t. Failed\<rparr>
     \<lparr>zotero_api_key = ''key'', zotero_library_id = ''42'', zotero_library_type = ''user'',
      template = ''standard'', custom_template = []\<rparr> ''/scans/raw_scan.pdf''
   = Returned \<lparr>title = ''raw_scan'', authors = [], year = [], journal = [], publisher = [],
      doi = None, source = manual_review, confidence = 0,
      isbn = None, zotero_key = None\<rparr>"
proof -
  let ?net = "\<lparr>crossref_works = \<lambda>d. Failed, crossref_query = \<lambda>t. Failed,
      semantic_scholar_papers = \<lambda>t. Failed, open_library_books = \<lambda>i. Failed,
      google_books_volumes = \<lambda>i. Failed, zotero_items = \<lambda>ty i k t. Failed\<rparr>"
  let ?st = "\<lparr>zotero_api_key = ''key'', zotero_library_id = ''42'', zotero_library_type = ''user'',
      template = ''standard'', custom_template = []\<rparr>"
  let ?info = "\<lparr>info_doi = Some ''10.1000/xyz'', info_isbn = None,
      info_title_guess = Some ''A Study of Things'', info_text_snippet = [],
      info_pdf_metadata = []\<rparr>"
  let ?none = "\<lparr>info_doi = None, info_isbn = None, info_title_guess = None,
        info_text_snippet = [], info_pdf_metadata = []\<rparr>"
  let ?reader = "\<lambda>p::string. Document \<lparr>doc_metadata = [], doc_pages = []\<rparr>"
  have ex: "exhausted ?net ?st ?info" by (rule all_failed_exhausted)
  have pn: "path_name ''/scans/raw_scan.pdf'' = ''raw_scan.pdf''" by code_simp
  have ei: "extract_pdf_info ?reader ''/scans/raw_scan.pdf'' = Returned ?none"
    by code_simp
  from manual_review_record_fields [of ?net ?st ?info "''/d/x.pdf''" ?reader
      "''/scans/raw_scan.pdf''" ?none]
    ex pn ei
  show ?thesis by simp
qed

text \<open>
  A scan whose only text is a DOI, while CrossRef cannot be reached: the record for
  manual review carries that DOI.
\<close>

theorem manual_review_doi_counterexample:
  "resolve_metadata (\<lambda>p. Document \<lparr>doc_metadata = [], doc_pages = [''10.1000/xyz'']\<rparr>)
     \<lparr>crossref_works = \<lambda>d. Failed, crossref_query = \<lambda>t. Failed,
      semantic_scholar_papers = \<lambda>t. Failed, open_library_books = \<lambda>i. Failed,
      google_books_volumes = \<lambda>i. Failed, zotero_items = \<lambda>ty i k t. Failed\<rparr>
     \<lparr>zotero_api_key = [], zotero_library_id = [], zotero_library_type = ''user'',
      template = ''standard'', custom_template = []\<rparr> ''/d/raw_scan.pdf''
   = Returned \<lparr>title = ''raw_scan'', authors = [], year = [], journal = [], publisher = [],
      doi = Some ''10.1000/xyz'', source = manual_review, confidence = 0,
      isbn = None, zotero_key = None\<rparr>"
  by code_simp

section \<open>Title search: properties\<close>

lemma py_round2_hundredth: "\<exists>k::int. py_round2 x = of_int k / 100"
  by (auto simp: py_round2_def Let_def)

lemma py_round2_near: "\<bar>py_round2 x - x\<bar> \<le> 1 / 200"
proof -
  define y where "y = x * 100"
  define f where "f = \<lfloor>y\<rfloor>"
  define d where "d = y - of_int f"
  have d: "0 \<le> d" "d < 1" unfolding d_def f_def by linarith+
  define k where "k = (if d < 1 / 2 then f else if 1 / 2 < d then f + 1
              else if even f then f else f + 1)"
  have r: "py_round2 x = of_int k / 100"
    by (simp add: py_round2_def Let_def k_def d_def f_def y_def)
  have "\<bar>of_int k - y\<bar> \<le> 1 / 2"
    using d unfolding k_def d_def by (auto simp: abs_if)
  then have "\<bar>of_int k / 100 - y / 100\<bar> \<le> 1 / 200"
    by (simp add: abs_if field_simps split: if_splits)
  moreover have "y / 100 = x" by (simp add: y_def)
  ultimately show ?thesis by (simp add: r)
qed

lemma overlap_count:
  "length (filter (\<lambda>w. w \<in> set b) (remdups a)) = card (set a \<inter> set b)"
proof -
  have "distinct (filter (\<lambda>w. w \<in> set b) (remdups a))" by simp
  then have "card (set (filter (\<lambda>w. w \<in> set b) (remdups a)))
        = length (filter (\<lambda>w. w \<in> set b) (remdups a))"
    by (rule distinct_card)
  moreover have "set (filter (\<lambda>w. w \<in> set b) (remdups a)) = set a \<inter> set b" by auto
  ultimately show ?thesis by simp
qed

lemma title_parse_crossref_item [simp]:
  "title (parse_crossref_item item) = first_or_empty (ci_title item)"
  by (simp add: parse_crossref_item_def Let_def)

lemma confidence_parse_crossref_item [simp]:
  "confidence (parse_crossref_item item) = 1"
  by (simp add: parse_crossref_item_def Let_def)

text \<open>
  C4, amended. For a query and the top item of a 200 answer, \<open>crossref_search_title\<close>
  returns the item's record. When the item has a title and the query has a word, the
  confidence is the overlap ratio (the number of distinct lower-cased query words that
  are words of the lower-cased result title, over the number of distinct query words)
  rounded to two decimals: a whole number of hundredths within 0.005 of the ratio.
  Otherwise the confidence stays the 1.0 of the parsed item.
\<close>

theorem crossref_search_title_confidence:
  assumes "crossref_query net t = Response 200 (best # others)"
  shows "\<exists>m. crossref_search_title net t = Some m
    \<and> (let q = set (py_split (lower t));
            r = set (py_split (lower (first_or_empty (ci_title best))))
        in if first_or_empty (ci_title best) \<noteq> [] \<and> t \<noteq> [] \<and> q \<noteq> {}
           then (\<exists>k::int. confidence m = of_int k / 100)
                \<and> \<bar>confidence m - of_nat (card (q \<inter> r)) / of_nat (card q)\<bar> \<le> 1 / 200
           else confidence m = 1)"
proof -
  let ?q = "py_split (lower t)"
  let ?r = "py_split (lower (first_or_empty (ci_title best)))"
  show ?thesis
  proof (cases "first_or_empty (ci_title best) \<noteq> [] \<and> t \<noteq> [] \<and> set ?q \<noteq> {}")
    case True
    let ?ratio = "of_nat (card (set ?q \<inter> set ?r)) / of_nat (card (set ?q)) :: rat"
    let ?m = "(parse_crossref_item best)\<lparr>confidence := py_round2 ?ratio\<rparr>"
    from True assms have "crossref_search_title net t = Some ?m"
      by (simp add: crossref_search_title_def Let_def lower_def overlap_count
          length_remdups_card_conv)
    moreover have "\<exists>k::int. confidence ?m = of_int k / 100"
      using py_round2_hundredth [of ?ratio] by simp
    moreover have "\<bar>confidence ?m - ?ratio\<bar> \<le> 1 / 200"
      using py_round2_near [of ?ratio] by simp
    ultimately show ?thesis
      using True unfolding Let_def by (intro exI [of _ ?m]) (simp only: if_True simp_thms)
  next
    case False
    then have "crossref_search_title net t = Some (parse_crossref_item best)"
      using assms by (auto simp: crossref_search_title_def Let_def lower_def)
    with False show ?thesis by (auto simp: Let_def)
  qed
qed

theorem crossref_search_title_confidence_witness:
  "crossref_query
     \<lparr>crossref_works = \<lambda>d. Failed,
      crossref_query = \<lambda>t. Response 200
        [\<lparr>ci_author = [], ci_title = [''Deep networks''], ci_published_print = [[]],
          ci_published_online = [[]], ci_created = [[]], ci_short_container_title = [],
          ci_container_title = [], ci_publisher = [], ci_DOI = []\<rparr>],
      semantic_scholar_papers = \<lambda>t. Failed, open_library_books = \<lambda>i. Failed,
      google_books_volumes = \<lambda>i. Failed, zotero_items = \<lambda>ty i k t. Failed\<rparr>
     ''deep learning methods''
   = Response 200
        [\<lparr>ci_author = [], ci_title = [''Deep networks''], ci_published_print = [[]],
          ci_published_online = [[]], ci_created = [[]], ci_short_container_title = [],
          ci_container_title = [], ci_publisher = [], ci_DOI = []\<rparr>]
   \<and> (\<exists>m. crossref_search_title
     \<lparr>crossref_works = \<lambda>d. Failed,
      crossref_query = \<lambda>t. Response 200
        [\<lparr>ci_author = [], ci_title = [''Deep networks''], ci_published_print = [[]],
          ci_published_online = [[]], ci_created = [[]], ci_short_container_title = [],
          ci_container_title = [], ci_publisher = [], ci_DOI = []\<rparr>],
      semantic_scholar_papers = \<lambda>t. Failed, open_library_books = \<lambda>i. Failed,
      google_books_volumes = \<lambda>i. Failed, zotero_items = \<lambda>ty i k t. Failed\<rparr>
     ''deep learning methods'' = Some m
      \<and> (\<exists>k::int. confidence m = of_int k / 100)
      \<and> \<bar>confidence m - 1 / 3\<bar> \<le> 1 / 200)"
proof -
  let ?item = "\<lparr>ci_author = [], ci_title = [''Deep networks''], ci_published_print = [[]],
          ci_published_online = [[]], ci_created = [[]], ci_short_container_title = [],
          ci_container_title = [], ci_publisher = [], ci_DOI = []\<rparr>"
  let ?net = "\<lparr>crossref_works = \<lambda>d. Failed,
      crossref_query = \<lambda>t. Response 200 [?item],
      semantic_scholar_papers = \<lambda>t. Failed, open_library_books = \<lambda>i. Failed,
      google_books_volumes = \<lambda>i. Failed, zotero_items = \<lambda>ty i k t. Failed\<rparr>"
  have q: "crossref_query ?net ''deep learning methods'' = Response 200 (?item # [])"
    by simp
  have wq: "py_split (lower ''deep learning methods'') = [''deep'', ''learning'', ''methods'']"
    by code_simp
  have wr: "py_split (lower ''Deep networks'') = [''deep'', ''networks'']"
    by code_simp
  from crossref_search_title_confidence [OF q]
  show ?thesis by (simp add: wq wr Let_def)
qed

text \<open>
  One of the three words of the query is in the result's title: the confidence is 0.33,
  which is not one third.
\<close>

theorem confidence_rounded_counterexample:
  "map_option confidence (crossref_search_title
     \<lparr>crossref_works = \<lambda>d. Failed,
      crossref_query = \<lambda>t. Response 200
        [\<lparr>ci_author = [], ci_title = [''Deep networks''], ci_published_print = [[]],
          ci_published_online = [[]], ci_created = [[]], ci_short_container_title = [],
          ci_container_title = [], ci_publisher = [], ci_DOI = []\<rparr>],
      semantic_scholar_papers = \<lambda>t. Failed, open_library_books = \<lambda>i. Failed,
      google_books_volumes = \<lambda>i. Failed, zotero_items = \<lambda>ty i k t. Failed\<rparr>
     ''deep learning methods'') = Some (33 / 100)
   \<and> rat_of_nat (card (set (py_split (lower ''deep learning methods''))
                        \<inter> set (py_split (lower ''Deep networks''))))
       / rat_of_nat (card (set (py_split (lower ''deep learning methods'')))) = 1 / 3
   \<and> (33 / 100 :: rat) \<noteq> 1 / 3"
proof -
  have wq: "py_split (lower ''deep learning methods'') = [''deep'', ''learning'', ''methods'']"
    by code_simp
  have wr: "py_split (lower ''Deep networks'') = [''deep'', ''networks'']"
    by code_simp
  have "map_option confidence (crossref_search_title
     \<lparr>crossref_works = \<lambda>d. Failed,
      crossref_query = \<lambda>t. Response 200
        [\<lparr>ci_author = [], ci_title = [''Deep networks''], ci_published_print = [[]],
          ci_published_online = [[]], ci_created = [[]], ci_short_container_title = [],
          ci_container_title = [], ci_publisher = [], ci_DOI = []\<rparr>],
      semantic_scholar_papers = \<lambda>t. Failed, open_library_books = \<lambda>i. Failed,
      google_books_volumes = \<lambda>i. Failed, zotero_items = \<lambda>ty i k t. Failed\<rparr>
     ''deep learning methods'') = Some (33 / 100)"
    by code_simp
  then show ?thesis by (simp add: wq wr)
qed

section \<open>Filename sanitization: properties\<close>

lemma collapsed_Cons:
  "collapsed (c # s) = ((\<not> u_space c \<or> (c = 32 \<and> (s = [] \<or> \<not> u_space (hd s)))) \<and> collapsed s)"
  by (cases s) auto

lemma collapsed_collapse_ws: "collapsed (collapse_ws s)"
proof (induction s rule: collapse_ws.induct)
  case 1
  then show ?case by simp
next
  case (2 c cs)
  show ?case
  proof (cases "u_space c")
    case True
    have "collapse_ws (dropWhile u_space cs) = [] \<or> \<not> u_space (hd (collapse_ws (dropWhile u_space cs)))"
    proof (cases "dropWhile u_space cs")
      case Nil
      then show ?thesis by (simp del: dropWhile_eq_Nil_conv)
    next
      case (Cons d ds)
      then have "\<not> u_space d" using hd_dropWhile [of u_space cs] by auto
      with Cons show ?thesis by simp
    qed
    with True "2" show ?thesis by (simp add: collapsed_Cons)
  next
    case False
    with "2" show ?thesis by (simp add: collapsed_Cons)
  qed
qed

lemma collapse_ws_collapsed: "collapsed s \<Longrightarrow> collapse_ws s = s"
proof (induction s rule: collapse_ws.induct)
  case 1
  then show ?case by simp
next
  case (2 c cs)
  show ?case
  proof (cases "u_space c")
    case True
    with "2.prems" have c: "c = 32" and h: "cs = [] \<or> \<not> u_space (hd cs)" and cc: "collapsed cs"
      by (auto simp: collapsed_Cons)
    from h have "dropWhile u_space cs = cs" by (cases cs) auto
    with "2.IH"(1) [OF True] cc True c show ?thesis by simp
  next
    case False
    with "2" show ?thesis by (simp add: collapsed_Cons)
  qed
qed

lemma collapsed_append: "collapsed (a @ b) \<Longrightarrow> collapsed a \<and> collapsed b"
proof (induction a)
  case Nil
  then show ?case by simp
next
  case (Cons c a)
  then have ca: "collapsed (a @ b)" and c: "\<not> u_space c \<or> (c = 32 \<and> (a @ b = [] \<or> \<not> u_space (hd (a @ b))))"
    by (auto simp: collapsed_Cons)
  from Cons.IH [OF ca] have "collapsed a" "collapsed b" by auto
  moreover from c have "\<not> u_space c \<or> (c = 32 \<and> (a = [] \<or> \<not> u_space (hd a)))"
    by (cases a) auto
  ultimately show ?case by (simp add: collapsed_Cons)
qed

lemma u_strip_segment: "\<exists>a b. s = a @ u_strip s @ b"
proof -
  let ?u = "dropWhile u_space s"
  have "s = takeWhile u_space s @ ?u" by simp
  moreover have "?u = u_strip s @ rev (takeWhile u_space (rev ?u))"
  proof -
    have "rev ?u = takeWhile u_space (rev ?u) @ dropWhile u_space (rev ?u)" by simp
    then have "rev (rev ?u) = rev (takeWhile u_space (rev ?u) @ dropWhile u_space (rev ?u))"
      by (rule arg_cong)
    then show ?thesis by (simp add: u_strip_def del: takeWhile_dropWhile_id)
  qed
  ultimately show ?thesis by metis
qed

lemma stripped_u_strip: "stripped (u_strip s)"
proof (cases "u_strip s = []")
  case True
  then show ?thesis by (simp add: stripped_def)
next
  case False
  let ?u = "dropWhile u_space s"
  let ?v = "dropWhile u_space (rev ?u)"
  from False have v: "?v \<noteq> []" by (simp add: u_strip_def)
  have u: "?u \<noteq> []"
  proof
    assume "?u = []"
    with v show False by (simp del: dropWhile_eq_Nil_conv)
  qed
  have "last (u_strip s) = hd ?v" by (simp add: u_strip_def last_rev)
  with hd_dropWhile [OF v] have l: "\<not> u_space (last (u_strip s))" by simp
  obtain b where "?u = u_strip s @ b"
  proof -
    have "rev ?u = takeWhile u_space (rev ?u) @ ?v" by simp
    then have "rev (rev ?u) = rev (takeWhile u_space (rev ?u) @ ?v)" by (rule arg_cong)
    then have "?u = u_strip s @ rev (takeWhile u_space (rev ?u))"
      by (simp add: u_strip_def del: takeWhile_dropWhile_id)
    then show ?thesis by (rule that)
  qed
  with False have "hd (u_strip s) = hd ?u" by (metis hd_append2)
  with hd_dropWhile [OF u] have "\<not> u_space (hd (u_strip s))" by simp
  with l show ?thesis by (simp add: stripped_def)
qed

lemma u_strip_stripped: "stripped s \<Longrightarrow> u_strip s = s"
proof (cases "s = []")
  case True
  then show ?thesis by (simp add: u_strip_def)
next
  case False
  assume "stripped s"
  with False have h: "\<not> u_space (hd s)" and l: "\<not> u_space (last s)"
    by (auto simp: stripped_def)
  from False h have 1: "dropWhile u_space s = s" by (cases s) auto
  from False l have "\<not> u_space (hd (rev s))" by (simp add: hd_rev)
  with False have 2: "dropWhile u_space (rev s) = rev s" by (cases "rev s") auto
  show ?thesis by (simp add: u_strip_def 1 2)
qed

lemma collapsed_u_strip: "collapsed s \<Longrightarrow> collapsed (u_strip s)"
proof -
  assume c: "collapsed s"
  from u_strip_segment [of s] obtain a b where "s = a @ u_strip s @ b" by blast
  with c have "collapsed (a @ u_strip s @ b)" by simp
  then show ?thesis by (auto dest!: collapsed_append)
qed

lemma collapsed_space: "collapsed s \<Longrightarrow> c \<in> set s \<Longrightarrow> u_space c \<Longrightarrow> c = 32"
  by (induction s) (auto simp: collapsed_Cons)

lemma collapsed_before_space:
  "collapsed (a @ c # b) \<Longrightarrow> a \<noteq> [] \<Longrightarrow> u_space c \<Longrightarrow> \<not> u_space (last a)"
proof (induction a)
  case Nil
  then show ?case by simp
next
  case (Cons x a)
  show ?case
  proof (cases "a = []")
    case True
    with Cons.prems show ?thesis by (auto simp: collapsed_Cons)
  next
    case False
    from Cons.prems have "collapsed (a @ c # b)" by (simp add: collapsed_Cons)
    from Cons.IH [OF this False Cons.prems(3)] False show ?thesis by simp
  qed
qed

lemma rsplit_space_first_decomp:
  "32 \<in> set s \<Longrightarrow> \<exists>w. s = rsplit_space_first s @ 32 # w"
proof -
  assume in_s: "32 \<in> set s"
  let ?d = "dropWhile (\<lambda>c. c \<noteq> 32) (rev s)"
  from in_s have d: "?d \<noteq> []" by auto
  with hd_dropWhile [of "\<lambda>c. c \<noteq> 32" "rev s"] have "hd ?d = 32" by auto
  with d have dd: "?d = 32 # tl ?d" by (cases ?d) auto
  have "rev s = takeWhile (\<lambda>c. c \<noteq> 32) (rev s) @ ?d" by simp
  then have "rev (rev s) = rev (takeWhile (\<lambda>c. c \<noteq> 32) (rev s) @ ?d)" by (rule arg_cong)
  then have "s = rev ?d @ rev (takeWhile (\<lambda>c. c \<noteq> 32) (rev s))"
    by (simp del: takeWhile_dropWhile_id)
  also have "rev ?d = rev (tl ?d) @ [32]" by (subst dd) simp
  finally have "s = rev (tl ?d) @ 32 # rev (takeWhile (\<lambda>c. c \<noteq> 32) (rev s))" by simp
  then have "\<exists>w. s = rev (tl ?d) @ 32 # w" by (rule exI)
  with in_s show ?thesis by (simp only: rsplit_space_first_def if_True)
qed

lemma space_is_space: "u_space 32"
  by (simp add: u_space_def)

lemma truncate_tidy:
  assumes c: "collapsed t" and st: "stripped t"
  shows "collapsed (rsplit_space_first (take 200 t))
    \<and> stripped (rsplit_space_first (take 200 t))
    \<and> set (rsplit_space_first (take 200 t)) \<subseteq> set t
    \<and> length (rsplit_space_first (take 200 t)) \<le> 200"
proof -
  let ?p = "take 200 t"
  let ?r = "rsplit_space_first ?p"
  have "collapsed (?p @ drop 200 t)" using c by simp
  then have cp: "collapsed ?p" by (blast dest: collapsed_append)
  have hd_p: "\<not> u_space (hd ?p)" if "?p \<noteq> []"
  proof -
    from that have "t \<noteq> []" by auto
    with st have "\<not> u_space (hd t)" by (simp add: stripped_def)
    moreover from that have "hd ?p = hd t" by (cases t) auto
    ultimately show ?thesis by simp
  qed
  show ?thesis
  proof (cases "32 \<in> set ?p")
    case False
    then have r: "?r = ?p" by (simp add: rsplit_space_first_def)
    have "\<not> u_space (last ?p)" if "?p \<noteq> []"
    proof
      assume "u_space (last ?p)"
      moreover from that have "last ?p \<in> set ?p" by simp
      ultimately have "32 \<in> set ?p" using collapsed_space [OF cp] by metis
      with False show False by simp
    qed
    with hd_p have "stripped ?p" by (auto simp: stripped_def)
    with cp r show ?thesis by (auto dest: in_set_takeD)
  next
    case True
    from rsplit_space_first_decomp [OF True] obtain w where w: "?p = ?r @ 32 # w" by blast
    then have crw: "collapsed (?r @ 32 # w)" using cp by simp
    then have cr: "collapsed ?r" by (blast dest: collapsed_append)
    have "stripped ?r"
    proof (cases "?r = []")
      case True
      then show ?thesis by (simp add: stripped_def)
    next
      case False
      from collapsed_before_space [OF crw False space_is_space]
      have l: "\<not> u_space (last ?r)" .
      from w False have "hd ?r = hd ?p" by (metis hd_append2)
      moreover from w have "?p \<noteq> []" by (metis append_is_Nil_conv list.distinct(1))
      ultimately have "\<not> u_space (hd ?r)" using hd_p by simp
      with l show ?thesis by (simp add: stripped_def)
    qed
    moreover have "set ?r \<subseteq> set ?p" by (subst (2) w) auto
    then have "set ?r \<subseteq> set t" by (auto dest: in_set_takeD)
    moreover have "length ?r \<le> length ?p" by (subst (2) w) simp
    then have "length ?r \<le> 200" by simp
    ultimately show ?thesis using cr by blast
  qed
qed

lemma set_collapse_ws: "set (collapse_ws s) \<subseteq> insert 32 (set s)"
  by (induction s rule: collapse_ws.induct) (auto dest: set_dropWhileD)

lemma set_u_strip: "set (u_strip s) \<subseteq> set s"
proof -
  from u_strip_segment [of s] obtain a b where "s = a @ u_strip s @ b" by blast
  then have "set s = set a \<union> set (u_strip s) \<union> set b" by (metis set_append Un_assoc)
  then show ?thesis by auto
qed

lemma sanitize_filename_tidy:
  "collapsed (sanitize_filename nfkd x) \<and> stripped (sanitize_filename nfkd x)
   \<and> set (sanitize_filename nfkd x) \<subseteq> insert 32 {c \<in> set (nfkd x). \<not> forbidden c}
   \<and> length (sanitize_filename nfkd x) \<le> 200"
proof -
  let ?f = "filter (\<lambda>c. \<not> forbidden c) (nfkd x)"
  let ?t = "u_strip (collapse_ws ?f)"
  have c: "collapsed ?t" by (intro collapsed_u_strip collapsed_collapse_ws)
  have s: "stripped ?t" by (rule stripped_u_strip)
  have sub: "set ?t \<subseteq> insert 32 {c \<in> set (nfkd x). \<not> forbidden c}"
    using set_u_strip [of "collapse_ws ?f"] set_collapse_ws [of ?f] by auto
  show ?thesis
  proof (cases "length ?t > 200")
    case True
    then have "sanitize_filename nfkd x = rsplit_space_first (take 200 ?t)"
      by (simp add: sanitize_filename_def Let_def)
    with truncate_tidy [OF c s] sub show ?thesis by auto
  next
    case False
    then have "sanitize_filename nfkd x = ?t"
      by (simp add: sanitize_filename_def Let_def)
    with c s sub False show ?thesis by auto
  qed
qed

lemma sanitize_filename_fixed:
  assumes "collapsed r" "stripped r" "\<forall>c\<in>set r. \<not> forbidden c" "length r \<le> 200" "nfkd r = r"
  shows "sanitize_filename nfkd r = r"
proof -
  from assms(3) have "filter (\<lambda>c. \<not> forbidden c) r = r" by (simp add: filter_id_conv)
  with assms show ?thesis
    by (simp add: sanitize_filename_def Let_def collapse_ws_collapsed u_strip_stripped)
qed

lemma forbidden_32: "\<not> forbidden 32"
  by (simp add: forbidden_def)

text \<open>
  C7, amended. Sanitizing twice gives what sanitizing once gives whenever the sanitized
  name is itself in normal form (the normaliser leaves it as it is); that is so for
  every ASCII name, which every normaliser that leaves ASCII strings alone, as NFKD
  does, leaves alone.
\<close>

theorem sanitize_filename_idempotent:
  "(nfkd (sanitize_filename nfkd x) = sanitize_filename nfkd x \<longrightarrow>
      sanitize_filename nfkd (sanitize_filename nfkd x) = sanitize_filename nfkd x)
   \<and> ((\<forall>y. list_all (\<lambda>c. c < 128) y \<longrightarrow> nfkd y = y) \<and> list_all (\<lambda>c. c < 128) x \<longrightarrow>
      sanitize_filename nfkd (sanitize_filename nfkd x) = sanitize_filename nfkd x)"
proof -
  let ?r = "sanitize_filename nfkd x"
  note t = sanitize_filename_tidy [of nfkd x]
  from t have nf: "\<forall>c\<in>set ?r. \<not> forbidden c" using forbidden_32 by auto
  have fixed: "sanitize_filename nfkd ?r = ?r" if "nfkd ?r = ?r"
    using t nf that by (intro sanitize_filename_fixed) auto
  have "nfkd ?r = ?r"
    if a: "\<forall>y. list_all (\<lambda>c. c < 128) y \<longrightarrow> nfkd y = y" and x: "list_all (\<lambda>c. c < 128) x"
  proof -
    from a x have "nfkd x = x" by simp
    with t have "set ?r \<subseteq> insert 32 (set x)" by auto
    with x have "list_all (\<lambda>c. c < 128) ?r" by (auto simp: list_all_iff)
    with a show ?thesis by simp
  qed
  with fixed show ?thesis by blast
qed

lemma place_starter: "ccc c = 0 \<Longrightarrow> place c s = c # s"
  by (cases s) auto

lemma canonical_order_ascii: "list_all (\<lambda>c. c < 128) y \<Longrightarrow> canonical_order y = y"
  by (induction y) (auto simp: place_starter ccc_def)

theorem sanitize_filename_idempotent_witness:
  "list_all (\<lambda>c. c < 128) [32, 97, 60, 98, 9, 9, 99, 58, 32 :: nat]
   \<and> sanitize_filename canonical_order [32, 97, 60, 98, 9, 9, 99, 58, 32] = [97, 98, 32, 99]
   \<and> canonical_order [97, 98, 32, 99] = [97, 98, 32, 99]
   \<and> sanitize_filename canonical_order
        (sanitize_filename canonical_order [32, 97, 60, 98, 9, 9, 99, 58, 32])
      = sanitize_filename canonical_order [32, 97, 60, 98, 9, 9, 99, 58, 32]"
proof -
  have a: "list_all (\<lambda>c. c < 128) [32, 97, 60, 98, 9, 9, 99, 58, 32 :: nat]" by simp
  have s: "sanitize_filename canonical_order [32, 97, 60, 98, 9, 9, 99, 58, 32] = [97, 98, 32, 99]"
    by (simp add: sanitize_filename_def u_strip_def forbidden_def u_space_def ccc_def Let_def)
  have c: "canonical_order [97, 98, 32, 99] = [97, 98, 32, 99]"
    by (simp add: ccc_def)
  from sanitize_filename_idempotent [of canonical_order "[32, 97, 60, 98, 9, 9, 99, 58, 32]"]
    canonical_order_ascii a
  have "sanitize_filename canonical_order
        (sanitize_filename canonical_order [32, 97, 60, 98, 9, 9, 99, 58, 32])
      = sanitize_filename canonical_order [32, 97, 60, 98, 9, 9, 99, 58, 32]"
    by blast
  with a s c show ?thesis by blast
qed

text \<open>
  The name \<open>a\<close>, U+0301, \<open>/\<close>, U+0323 is in normal form, since the slash stands
  between the two marks. Sanitizing removes the slash; sanitizing the result again
  puts the two marks, now adjacent, in the order of their classes.
\<close>

theorem sanitize_not_idempotent_counterexample:
  "sanitize_filename canonical_order [0x61, 0x301, 0x2F, 0x323] = [0x61, 0x301, 0x323]
   \<and> sanitize_filename canonical_order [0x61, 0x301, 0x323] = [0x61, 0x323, 0x301]
   \<and> sanitize_filename canonical_order (sanitize_filename canonical_order [0x61, 0x301, 0x2F, 0x323])
      \<noteq> sanitize_filename canonical_order [0x61, 0x301, 0x2F, 0x323]"
proof -
  have 1: "sanitize_filename canonical_order [0x61, 0x301, 0x2F, 0x323] = [0x61, 0x301, 0x323]"
    by (simp add: sanitize_filename_def u_strip_def forbidden_def u_space_def ccc_def Let_def)
  have 2: "sanitize_filename canonical_order [0x61, 0x301, 0x323] = [0x61, 0x323, 0x301]"
    by (simp add: sanitize_filename_def u_strip_def forbidden_def u_space_def ccc_def Let_def)
  show ?thesis by (simp add: 1 2)
qed

end
